theory Spec2Isabelle
  imports Main "HOL-Library.Word"
begin

section \<open>Data model (workout\_types.h)\<close>

type_synonym u8 = "8 word"
type_synonym u16 = "16 word"
type_synonym u32 = "32 word"

definition MAX_LAPS :: nat where
  "MAX_LAPS = 8"

datatype WorkoutMode = MODE_4x500M | MODE_5x1000M | MODE_2x2000M | MODE_1x4000M

datatype WorkoutState =
  STATE_IDLE | STATE_RUNNING | STATE_REST | STATE_PAUSED | STATE_COMPLETED

record WorkoutConfig =
  mode :: WorkoutMode
  total_laps :: u8
  lap_distance_m :: u16
  rest_time_sec :: u16

record LapRecord =
  lap_number :: u8
  lap_time_ms :: u32
  split_time_ms :: u32

record WorkoutSession =
  config :: WorkoutConfig
  state :: WorkoutState
  current_lap :: u8
  workout_start_ms :: u32
  lap_start_ms :: u32
  laps :: "LapRecord list"

text \<open>
  The three file-scope variables of workout\_state.c: the session and the two pause-time
  accumulators. Every lifecycle function below takes this record and returns it updated.
\<close>

record Workout =
  s_session :: WorkoutSession
  s_pauseStartMs :: u32
  s_totalPausedMs :: u32

section \<open>Time source (time\_utils.c)\<close>

text \<open>
  \<^verbatim>\<open>Time_GetMs\<close> returns \<^verbatim>\<open>xTaskGetTickCount() * portTICK_PERIOD_MS\<close> as a 32-bit
  value. The tick counter and the tick period belong to FreeRTOS; the argument here is the
  device uptime in milliseconds, and the result is that uptime wrapped at \<open>2 ^ 32\<close>.
  The lifecycle functions receive the value one call of \<^verbatim>\<open>Time_GetMs\<close> returned as
  their argument \<open>now\<close>.
\<close>

definition Time_GetMs :: "nat \<Rightarrow> u32" where
  "Time_GetMs uptime_ms = word_of_nat uptime_ms"

section \<open>Workout lifecycle state machine (workout\_state.c)\<close>

definition zero_lap :: LapRecord where
  "zero_lap = \<lparr>lap_number = 0, lap_time_ms = 0, split_time_ms = 0\<rparr>"

text \<open>The session after \<^verbatim>\<open>memset(&s_session, 0, sizeof(s_session))\<close>.\<close>

definition zero_session :: WorkoutSession where
  "zero_session =
     \<lparr>config = \<lparr>mode = MODE_4x500M, total_laps = 0, lap_distance_m = 0, rest_time_sec = 0\<rparr>,
      state = STATE_IDLE, current_lap = 0, workout_start_ms = 0, lap_start_ms = 0,
      laps = replicate MAX_LAPS zero_lap\<rparr>"

fun setModeConfig :: "WorkoutMode \<Rightarrow> WorkoutSession \<Rightarrow> WorkoutSession" where
  "setModeConfig MODE_4x500M s =
     s\<lparr>config := \<lparr>mode = MODE_4x500M, total_laps = 4, lap_distance_m = 500, rest_time_sec = 60\<rparr>\<rparr>"
| "setModeConfig MODE_5x1000M s =
     s\<lparr>config := \<lparr>mode = MODE_5x1000M, total_laps = 5, lap_distance_m = 1000, rest_time_sec = 90\<rparr>\<rparr>"
| "setModeConfig MODE_2x2000M s =
     s\<lparr>config := \<lparr>mode = MODE_2x2000M, total_laps = 2, lap_distance_m = 2000, rest_time_sec = 120\<rparr>\<rparr>"
| "setModeConfig MODE_1x4000M s =
     s\<lparr>config := \<lparr>mode = MODE_1x4000M, total_laps = 1, lap_distance_m = 4000, rest_time_sec = 0\<rparr>\<rparr>"

definition Workout_Init :: Workout where
  "Workout_Init =
     \<lparr>s_session = setModeConfig MODE_4x500M (zero_session\<lparr>state := STATE_IDLE\<rparr>),
      s_pauseStartMs = 0, s_totalPausedMs = 0\<rparr>"

definition Workout_GetState :: "Workout \<Rightarrow> WorkoutState" where
  "Workout_GetState w = state (s_session w)"

definition Workout_SetMode :: "WorkoutMode \<Rightarrow> Workout \<Rightarrow> bool \<times> Workout" where
  "Workout_SetMode m w =
     (if state (s_session w) \<noteq> STATE_IDLE then (False, w)
      else (True, w\<lparr>s_session := setModeConfig m (s_session w)\<rparr>))"

text \<open>The enum values of \<^verbatim>\<open>WorkoutMode_t\<close>, for \<^verbatim>\<open>(mode + 1) % 4\<close>.\<close>

fun mode_value :: "WorkoutMode \<Rightarrow> nat" where
  "mode_value MODE_4x500M = 0"
| "mode_value MODE_5x1000M = 1"
| "mode_value MODE_2x2000M = 2"
| "mode_value MODE_1x4000M = 3"

definition mode_of_value :: "nat \<Rightarrow> WorkoutMode" where
  "mode_of_value n =
     (if n = 0 then MODE_4x500M else if n = 1 then MODE_5x1000M
      else if n = 2 then MODE_2x2000M else MODE_1x4000M)"

definition Workout_CycleMode :: "Workout \<Rightarrow> bool \<times> Workout" where
  "Workout_CycleMode w =
     (if state (s_session w) \<noteq> STATE_IDLE then (False, w)
      else
        let newMode = mode_of_value ((mode_value (mode (config (s_session w))) + 1) mod 4)
        in (True, w\<lparr>s_session := setModeConfig newMode (s_session w)\<rparr>))"

definition Workout_Start :: "u32 \<Rightarrow> Workout \<Rightarrow> bool \<times> Workout" where
  "Workout_Start now w =
     (case state (s_session w) of
        STATE_IDLE \<Rightarrow>
          (True, w\<lparr>s_session := (s_session w)\<lparr>state := STATE_RUNNING, current_lap := 1,
                                   workout_start_ms := now, lap_start_ms := now\<rparr>,
                    s_totalPausedMs := 0\<rparr>)
      | STATE_PAUSED \<Rightarrow>
          (True, w\<lparr>s_session := (s_session w)\<lparr>state := STATE_RUNNING\<rparr>,
                    s_totalPausedMs := s_totalPausedMs w + (now - s_pauseStartMs w)\<rparr>)
      | STATE_RUNNING \<Rightarrow> (False, w)
      | STATE_COMPLETED \<Rightarrow> (False, w)
      | STATE_REST \<Rightarrow> (False, w))"

text \<open>
  \<^verbatim>\<open>Workout_RecordLap\<close> writes \<^verbatim>\<open>s_session.laps[current_lap - 1]\<close>, the index computed
  in \<^verbatim>\<open>uint8_t\<close>. The array has \<open>MAX_LAPS\<close> elements and C gives a write outside it no
  meaning, so the model has a result of its own for that case and leaves the state alone.
  \<open>LapNotRunning\<close> is the source's \<^verbatim>\<open>return false\<close>; \<open>LapOk lap\<close> is \<^verbatim>\<open>return true\<close>
  with \<^verbatim>\<open>*lap_out = lap\<close>.
\<close>

datatype LapResult = LapNotRunning | LapOutOfBounds | LapOk LapRecord

definition Workout_RecordLap :: "u32 \<Rightarrow> Workout \<Rightarrow> LapResult \<times> Workout" where
  "Workout_RecordLap now w =
     (let s = s_session w in
      if state s \<noteq> STATE_RUNNING then (LapNotRunning, w)
      else
        let lapIndex = current_lap s - 1 in
        if \<not> unat lapIndex < MAX_LAPS then (LapOutOfBounds, w)
        else
          let lap = \<lparr>lap_number = current_lap s,
                     lap_time_ms = now - lap_start_ms s,
                     split_time_ms = now - workout_start_ms s - s_totalPausedMs w\<rparr>;
              s1 = s\<lparr>laps := (laps s)[unat lapIndex := lap]\<rparr>;
              s2 = (if current_lap s \<ge> total_laps (config s)
                    then s1\<lparr>state := STATE_COMPLETED\<rparr>
                    else s1\<lparr>current_lap := current_lap s + 1, lap_start_ms := now\<rparr>)
          in (LapOk lap, w\<lparr>s_session := s2\<rparr>))"

definition Workout_Pause :: "u32 \<Rightarrow> Workout \<Rightarrow> bool \<times> Workout" where
  "Workout_Pause now w =
     (if state (s_session w) \<noteq> STATE_RUNNING then (False, w)
      else (True, w\<lparr>s_session := (s_session w)\<lparr>state := STATE_PAUSED\<rparr>,
                     s_pauseStartMs := now\<rparr>))"

definition Workout_Stop :: "Workout \<Rightarrow> bool \<times> Workout" where
  "Workout_Stop w =
     (if state (s_session w) = STATE_IDLE \<or> state (s_session w) = STATE_COMPLETED
      then (False, w)
      else (True, w\<lparr>s_session := (s_session w)\<lparr>state := STATE_COMPLETED\<rparr>\<rparr>))"

definition Workout_Reset :: "Workout \<Rightarrow> Workout" where
  "Workout_Reset w =
     (let currentMode = mode (config (s_session w)) in
      \<lparr>s_session = setModeConfig currentMode (zero_session\<lparr>state := STATE_IDLE\<rparr>),
       s_pauseStartMs = 0, s_totalPausedMs = 0\<rparr>)"

text \<open>
  \<^verbatim>\<open>Workout_GetElapsedMs\<close> reads the clock twice when the session is paused; \<open>t1\<close> and
  \<open>t2\<close> are the two values read, in the order of the source.
\<close>

definition Workout_GetElapsedMs :: "u32 \<Rightarrow> u32 \<Rightarrow> Workout \<Rightarrow> u32" where
  "Workout_GetElapsedMs t1 t2 w =
     (if state (s_session w) = STATE_IDLE then 0
      else
        let elapsed = t1 - workout_start_ms (s_session w) - s_totalPausedMs w in
        if state (s_session w) = STATE_PAUSED then elapsed - (t2 - s_pauseStartMs w)
        else elapsed)"

definition Workout_GetCurrentLapMs :: "u32 \<Rightarrow> Workout \<Rightarrow> u32" where
  "Workout_GetCurrentLapMs now w =
     (if state (s_session w) \<noteq> STATE_RUNNING then 0 else now - lap_start_ms (s_session w))"

section \<open>Calls of the lifecycle interface\<close>

text \<open>
  A call of the lifecycle interface with its arguments. \<open>run_op\<close> gives the source's
  boolean result (\<open>True\<close> for the two \<^verbatim>\<open>void\<close> functions) and the state after the
  call; \<open>invalid_in\<close> lists the states in which the lifecycle rejects the call;
  \<open>run_ops\<close> performs a sequence of calls.
\<close>

datatype LifecycleOp =
  OpSetMode WorkoutMode | OpCycleMode | OpStart u32 | OpRecordLap u32 | OpPause u32 | OpStop
| OpReset | OpInit

fun run_op :: "LifecycleOp \<Rightarrow> Workout \<Rightarrow> bool \<times> Workout" where
  "run_op (OpSetMode m) w = Workout_SetMode m w"
| "run_op OpCycleMode w = Workout_CycleMode w"
| "run_op (OpStart now) w = Workout_Start now w"
| "run_op (OpRecordLap now) w =
     (case Workout_RecordLap now w of (LapOk lap, w') \<Rightarrow> (True, w') | (_, w') \<Rightarrow> (False, w'))"
| "run_op (OpPause now) w = Workout_Pause now w"
| "run_op OpStop w = Workout_Stop w"
| "run_op OpReset w = (True, Workout_Reset w)"
| "run_op OpInit w = (True, Workout_Init)"

fun invalid_in :: "LifecycleOp \<Rightarrow> WorkoutState \<Rightarrow> bool" where
  "invalid_in (OpSetMode m) st = (st \<noteq> STATE_IDLE)"
| "invalid_in OpCycleMode st = (st \<noteq> STATE_IDLE)"
| "invalid_in (OpStart now) st = (st = STATE_RUNNING \<or> st = STATE_COMPLETED)"
| "invalid_in (OpRecordLap now) st = (st \<noteq> STATE_RUNNING)"
| "invalid_in (OpPause now) st = (st \<noteq> STATE_RUNNING)"
| "invalid_in OpStop st = (st = STATE_IDLE \<or> st = STATE_COMPLETED)"
| "invalid_in OpReset st = False"
| "invalid_in OpInit st = False"

fun run_ops :: "LifecycleOp list \<Rightarrow> Workout \<Rightarrow> Workout" where
  "run_ops [] w = w"
| "run_ops (op # ops) w = run_ops ops (snd (run_op op w))"

section \<open>Lap bookkeeping\<close>

text \<open>
  \<open>record_laps\<close> calls \<^verbatim>\<open>Workout_RecordLap\<close> once for each clock value of a list and
  collects the results. A slot of \<^verbatim>\<open>laps\<close> is populated when its lap number is not the 0
  that \<^verbatim>\<open>memset\<close> left: a recorded lap carries the 1-based \<^verbatim>\<open>current_lap\<close>.
\<close>

fun record_laps :: "u32 list \<Rightarrow> Workout \<Rightarrow> LapResult list \<times> Workout" where
  "record_laps [] w = ([], w)"
| "record_laps (t # ts) w =
     (case Workout_RecordLap t w of
        (r, w1) \<Rightarrow> (case record_laps ts w1 of (rs, w2) \<Rightarrow> (r # rs, w2)))"

fun recorded :: "LapResult \<Rightarrow> LapRecord option" where
  "recorded (LapOk lap) = Some lap"
| "recorded LapNotRunning = None"
| "recorded LapOutOfBounds = None"

text \<open>The split times of the laps a list of results recorded, in order.\<close>

definition lap_splits :: "LapResult list \<Rightarrow> u32 list" where
  "lap_splits rs = map split_time_ms (List.map_filter recorded rs)"

definition populated :: "Workout \<Rightarrow> nat \<Rightarrow> bool" where
  "populated w i \<longleftrightarrow> lap_number (laps (s_session w) ! i) \<noteq> 0"

definition populated_below :: "Workout \<Rightarrow> nat \<Rightarrow> bool" where
  "populated_below w n \<longleftrightarrow> list_all (\<lambda>i. populated w i \<longleftrightarrow> i < n) [0..<MAX_LAPS]"

text \<open>
  The bookkeeping invariant of the session: the lap counter is within \<open>1 .. total_laps\<close>
  from the start of a workout on, and the populated slots are those below
  \<open>current_lap - 1\<close>, or all \<open>total_laps\<close> slots once the last lap has been recorded.
\<close>

definition lap_invariant :: "Workout \<Rightarrow> bool" where
  "lap_invariant w \<longleftrightarrow>
     (let s = s_session w; cur = unat (current_lap s); tot = unat (total_laps (config s)) in
      length (laps s) = MAX_LAPS \<and> 1 \<le> tot \<and> tot \<le> MAX_LAPS \<and> state s \<noteq> STATE_REST \<and>
      (state s = STATE_IDLE \<longrightarrow> populated_below w 0) \<and>
      (state s = STATE_RUNNING \<or> state s = STATE_PAUSED \<longrightarrow>
         1 \<le> cur \<and> cur \<le> tot \<and> populated_below w (cur - 1)) \<and>
      (state s = STATE_COMPLETED \<longrightarrow>
         1 \<le> cur \<and> cur \<le> tot \<and>
         (populated_below w (cur - 1) \<or> cur = tot \<and> populated_below w tot)))"

section \<open>Workout events (workout\_types.h)\<close>

text \<open>
  \<^verbatim>\<open>WorkoutEvent_t\<close>. Its fields \<^verbatim>\<open>type\<close> and \<^verbatim>\<open>current_lap\<close> are \<open>event_type\<close> and
  \<open>event_current_lap\<close> here, the second because the session has a field of that name.
  \<open>zero_event\<close> is the event after \<^verbatim>\<open>memset\<close> to 0 or the initialiser \<^verbatim>\<open>{0}\<close>.
\<close>

datatype EventType =
  EVENT_WORKOUT_START | EVENT_WORKOUT_STOP | EVENT_LAP_COMPLETE | EVENT_WORKOUT_DONE
| EVENT_STATUS_UPDATE

record WorkoutEvent =
  event_type :: EventType
  timestamp_ms :: u32
  event_current_lap :: u8
  lap_data :: LapRecord

definition zero_event :: WorkoutEvent where
  "zero_event = \<lparr>event_type = EVENT_WORKOUT_START, timestamp_ms = 0, event_current_lap = 0,
                  lap_data = zero_lap\<rparr>"

section \<open>Offline event buffer (buffer.c)\<close>

text \<open>
  The ring of \<open>BUFFER_MAX_EVENTS\<close> slots with its three \<^verbatim>\<open>uint8_t\<close> cursors. The cursors
  are natural numbers here: the source reduces head and tail modulo 16 in \<^verbatim>\<open>int\<close> before
  storing them and increments the count only below 16, so no 8-bit value wraps. A call
  with a null pointer is not modelled.
\<close>

definition BUFFER_MAX_EVENTS :: nat where
  "BUFFER_MAX_EVENTS = 16"

record Buffer =
  s_buffer :: "WorkoutEvent list"
  s_head :: nat
  s_tail :: nat
  s_count :: nat

definition Buffer_Init :: Buffer where
  "Buffer_Init = \<lparr>s_buffer = replicate BUFFER_MAX_EVENTS zero_event,
                   s_head = 0, s_tail = 0, s_count = 0\<rparr>"

definition Buffer_Push :: "WorkoutEvent \<Rightarrow> Buffer \<Rightarrow> bool \<times> Buffer" where
  "Buffer_Push e b =
     (let overflow = (s_count b \<ge> BUFFER_MAX_EVENTS);
          b1 = (if overflow then b\<lparr>s_tail := (s_tail b + 1) mod BUFFER_MAX_EVENTS\<rparr>
                else b\<lparr>s_count := s_count b + 1\<rparr>);
          b2 = b1\<lparr>s_buffer := (s_buffer b1)[s_head b1 := e]\<rparr>;
          b3 = b2\<lparr>s_head := (s_head b2 + 1) mod BUFFER_MAX_EVENTS\<rparr>
      in (\<not> overflow, b3))"

definition Buffer_Pop :: "Buffer \<Rightarrow> WorkoutEvent option \<times> Buffer" where
  "Buffer_Pop b =
     (if s_count b = 0 then (None, b)
      else (Some (s_buffer b ! s_tail b),
            b\<lparr>s_tail := (s_tail b + 1) mod BUFFER_MAX_EVENTS, s_count := s_count b - 1\<rparr>))"

definition Buffer_GetCount :: "Buffer \<Rightarrow> nat" where
  "Buffer_GetCount b = s_count b"

definition Buffer_IsEmpty :: "Buffer \<Rightarrow> bool" where
  "Buffer_IsEmpty b = (s_count b = 0)"

definition Buffer_Clear :: "Buffer \<Rightarrow> Buffer" where
  "Buffer_Clear b = b\<lparr>s_head := 0, s_tail := 0, s_count := 0\<rparr>"

text \<open>
  \<open>push_all\<close> pushes a list of events in order; \<open>pop_all\<close> is the loop
  \<^verbatim>\<open>while (Buffer_Pop(&event))\<close> of \<^verbatim>\<open>BleTx_FlushBuffer\<close>, returning the events popped.
\<close>

fun push_all :: "WorkoutEvent list \<Rightarrow> Buffer \<Rightarrow> Buffer" where
  "push_all [] b = b"
| "push_all (e # es) b = push_all es (snd (Buffer_Push e b))"

function pop_all :: "Buffer \<Rightarrow> WorkoutEvent list" where
  "pop_all b = (case Buffer_Pop b of (None, b') \<Rightarrow> [] | (Some e, b') \<Rightarrow> e # pop_all b')"
  by pat_completeness auto
termination
  by (relation "measure s_count") (auto simp: Buffer_Pop_def split: if_splits)

declare pop_all.simps [simp del]

text \<open>
  The events a buffer holds, oldest first, read off the ring from the tail; the relation
  between the cursors that the operations maintain; and the last 16 elements of a list.
\<close>

definition stored :: "Buffer \<Rightarrow> WorkoutEvent list" where
  "stored b = map (\<lambda>i. s_buffer b ! ((s_tail b + i) mod BUFFER_MAX_EVENTS)) [0..<s_count b]"

definition ring_ok :: "Buffer \<Rightarrow> bool" where
  "ring_ok b \<longleftrightarrow>
     length (s_buffer b) = BUFFER_MAX_EVENTS \<and> s_count b \<le> BUFFER_MAX_EVENTS \<and>
     s_tail b < BUFFER_MAX_EVENTS \<and>
     s_head b = (s_tail b + s_count b) mod BUFFER_MAX_EVENTS"

definition newest :: "WorkoutEvent list \<Rightarrow> WorkoutEvent list" where
  "newest es = drop (length es - BUFFER_MAX_EVENTS) es"

section \<open>Protocol codec (protocol.c)\<close>

text \<open>
  \<open>printf_text\<close> is the text \<^verbatim>\<open>snprintf\<close> produces from a format string and its arguments
  when nothing is cut off, for the three directives the source uses: \<^verbatim>\<open>%d\<close> with an
  \<^verbatim>\<open>int\<close>, \<^verbatim>\<open>%lu\<close> with an \<^verbatim>\<open>unsigned long\<close> (32 bits on the Cortex-M4 target) and
  \<^verbatim>\<open>%s\<close>. A directive without a matching argument gives \<open>None\<close>.

  \<^verbatim>\<open>Protocol_SerializeEvent\<close> reads the global session through \<^verbatim>\<open>Workout_GetSession\<close> and,
  for a status event, calls \<^verbatim>\<open>Workout_GetElapsedMs\<close>: the module state \<open>w\<close> and the two
  clock values \<open>t1\<close>, \<open>t2\<close> are therefore arguments of the model. The result \<open>None\<close> is
  the source's \<^verbatim>\<open>return 0\<close>; \<open>Some text\<close> is the return of \<open>length text\<close> with \<open>text\<close>
  in the buffer.
\<close>

fun Workout_StateToString :: "WorkoutState \<Rightarrow> string" where
  "Workout_StateToString STATE_IDLE = ''IDLE''"
| "Workout_StateToString STATE_RUNNING = ''RUNNING''"
| "Workout_StateToString STATE_REST = ''REST''"
| "Workout_StateToString STATE_PAUSED = ''PAUSED''"
| "Workout_StateToString STATE_COMPLETED = ''COMPLETED''"

fun Workout_ModeToString :: "WorkoutMode \<Rightarrow> string" where
  "Workout_ModeToString MODE_4x500M = ''4x500m''"
| "Workout_ModeToString MODE_5x1000M = ''5x1000m''"
| "Workout_ModeToString MODE_2x2000M = ''2x2000m''"
| "Workout_ModeToString MODE_1x4000M = ''1x4000m''"

definition PROTOCOL_MAX_MSG_LEN :: nat where
  "PROTOCOL_MAX_MSG_LEN = 128"

definition digit_char :: "nat \<Rightarrow> char" where
  "digit_char d = ''0123456789'' ! d"

fun dec :: "nat \<Rightarrow> string" where
  "dec n = (if n < 10 then [digit_char n] else dec (n div 10) @ [digit_char (n mod 10)])"

declare dec.simps [simp del]

definition dec_int :: "int \<Rightarrow> string" where
  "dec_int i = (if i < 0 then CHR ''-'' # dec (nat (- i)) else dec (nat i))"

datatype fmt_arg = Arg_d int | Arg_lu u32 | Arg_s string

fun printf_text :: "string \<Rightarrow> fmt_arg list \<Rightarrow> string option" where
  "printf_text [] args = Some []"
| "printf_text [c] args = (if c = CHR ''%'' then None else Some [c])"
| "printf_text (c # d # cs) args =
     (if c \<noteq> CHR ''%'' then map_option ((#) c) (printf_text (d # cs) args)
      else if d = CHR ''d'' then
        (case args of
           Arg_d i # rest \<Rightarrow> map_option ((@) (dec_int i)) (printf_text cs rest)
         | _ \<Rightarrow> None)
      else if d = CHR ''s'' then
        (case args of
           Arg_s s # rest \<Rightarrow> map_option ((@) s) (printf_text cs rest)
         | _ \<Rightarrow> None)
      else if d = CHR ''l'' then
        (case cs of
           u # cs' \<Rightarrow>
             if u = CHR ''u'' then
               (case args of
                  Arg_lu v # rest \<Rightarrow> map_option ((@) (dec (unat v))) (printf_text cs' rest)
                | _ \<Rightarrow> None)
             else None
         | [] \<Rightarrow> None)
      else None)"

definition Protocol_SerializeEvent ::
  "WorkoutEvent \<Rightarrow> nat \<Rightarrow> Workout \<Rightarrow> u32 \<Rightarrow> u32 \<Rightarrow> string option" where
  \<open>Protocol_SerializeEvent pEvent bufLen w t1 t2 =
     (let session = s_session w in
      if bufLen < 50 then None
      else
        let len =
          (case event_type pEvent of
             EVENT_WORKOUT_START \<Rightarrow>
               printf_text ''{"event":"start","mode":"%s","laps":%d,"ts":%lu}''
                 [Arg_s (Workout_ModeToString (mode (config session))),
                  Arg_d (uint (total_laps (config session))),
                  Arg_lu (timestamp_ms pEvent)]
           | EVENT_LAP_COMPLETE \<Rightarrow>
               printf_text ''{"event":"lap","lap":%d,"lap_ms":%lu,"split_ms":%lu,"ts":%lu}''
                 [Arg_d (uint (lap_number (lap_data pEvent))),
                  Arg_lu (lap_time_ms (lap_data pEvent)),
                  Arg_lu (split_time_ms (lap_data pEvent)),
                  Arg_lu (timestamp_ms pEvent)]
           | EVENT_WORKOUT_STOP \<Rightarrow>
               printf_text ''{"event":"stop","laps":%d,"total_ms":%lu,"ts":%lu}''
                 [Arg_d (uint (event_current_lap pEvent)),
                  Arg_lu (timestamp_ms pEvent - workout_start_ms session),
                  Arg_lu (timestamp_ms pEvent)]
           | EVENT_WORKOUT_DONE \<Rightarrow>
               printf_text ''{"event":"done","laps":%d,"total_ms":%lu,"ts":%lu}''
                 [Arg_d (uint (total_laps (config session))),
                  Arg_lu (split_time_ms (lap_data pEvent)),
                  Arg_lu (timestamp_ms pEvent)]
           | EVENT_STATUS_UPDATE \<Rightarrow>
               printf_text ''{"event":"status","state":"%s","lap":%d,"elapsed_ms":%lu}''
                 [Arg_s (Workout_StateToString (state session)),
                  Arg_d (uint (event_current_lap pEvent)),
                  Arg_lu (Workout_GetElapsedMs t1 t2 w)])
        in case len of
             None \<Rightarrow> None
           | Some text \<Rightarrow> if length text \<ge> bufLen then None else Some text)\<close>

text \<open>
  The wire records as section 6 of the specification writes them: one template per event
  kind, each placeholder a text. \<open>base10 s n\<close> says that \<open>s\<close> is the base-10 numeral of
  the natural number \<open>n\<close> without padding; \<open>wire_record\<close> fills the templates with the
  fields the specification names.
\<close>

fun wire_mode_name :: "WorkoutMode \<Rightarrow> string" where
  "wire_mode_name MODE_4x500M = ''4x500m''"
| "wire_mode_name MODE_5x1000M = ''5x1000m''"
| "wire_mode_name MODE_2x2000M = ''2x2000m''"
| "wire_mode_name MODE_1x4000M = ''1x4000m''"

fun wire_state_name :: "WorkoutState \<Rightarrow> string" where
  "wire_state_name STATE_IDLE = ''IDLE''"
| "wire_state_name STATE_RUNNING = ''RUNNING''"
| "wire_state_name STATE_REST = ''REST''"
| "wire_state_name STATE_PAUSED = ''PAUSED''"
| "wire_state_name STATE_COMPLETED = ''COMPLETED''"

definition is_digit :: "char \<Rightarrow> bool" where
  "is_digit c \<longleftrightarrow> c \<in> set ''0123456789''"

definition digit_value :: "char \<Rightarrow> nat" where
  "digit_value c = length (takeWhile (\<lambda>d. d \<noteq> c) ''0123456789'')"

definition base10_value :: "string \<Rightarrow> nat" where
  "base10_value s = foldl (\<lambda>acc c. 10 * acc + digit_value c) 0 s"

definition base10 :: "string \<Rightarrow> nat \<Rightarrow> bool" where
  "base10 s n \<longleftrightarrow>
     s \<noteq> [] \<and> list_all is_digit s \<and> (hd s = CHR ''0'' \<longrightarrow> s = ''0'') \<and> base10_value s = n"

definition wire_Start :: "string \<Rightarrow> string \<Rightarrow> string \<Rightarrow> string" where
  \<open>wire_Start mode_name lps ts =
     ''{"event":"start","mode":"'' @ mode_name @ ''","laps":'' @ lps @ '',"ts":'' @ ts @ ''}''\<close>

definition wire_LapComplete :: "string \<Rightarrow> string \<Rightarrow> string \<Rightarrow> string \<Rightarrow> string" where
  \<open>wire_LapComplete lap lap_ms split_ms ts =
     ''{"event":"lap","lap":'' @ lap @ '',"lap_ms":'' @ lap_ms @ '',"split_ms":'' @ split_ms
       @ '',"ts":'' @ ts @ ''}''\<close>

definition wire_Stop :: "string \<Rightarrow> string \<Rightarrow> string \<Rightarrow> string" where
  \<open>wire_Stop lps total_ms ts =
     ''{"event":"stop","laps":'' @ lps @ '',"total_ms":'' @ total_ms @ '',"ts":'' @ ts @ ''}''\<close>

definition wire_Done :: "string \<Rightarrow> string \<Rightarrow> string \<Rightarrow> string" where
  \<open>wire_Done lps total_ms ts =
     ''{"event":"done","laps":'' @ lps @ '',"total_ms":'' @ total_ms @ '',"ts":'' @ ts @ ''}''\<close>

definition wire_StatusUpdate :: "string \<Rightarrow> string \<Rightarrow> string \<Rightarrow> string" where
  \<open>wire_StatusUpdate state_name lap elapsed_ms =
     ''{"event":"status","state":"'' @ state_name @ ''","lap":'' @ lap @ '',"elapsed_ms":''
       @ elapsed_ms @ ''}''\<close>

definition wire_record :: "WorkoutEvent \<Rightarrow> Workout \<Rightarrow> u32 \<Rightarrow> u32 \<Rightarrow> string" where
  "wire_record e w t1 t2 =
     (case event_type e of
        EVENT_WORKOUT_START \<Rightarrow>
          wire_Start (wire_mode_name (mode (config (s_session w))))
            (dec (unat (total_laps (config (s_session w))))) (dec (unat (timestamp_ms e)))
      | EVENT_LAP_COMPLETE \<Rightarrow>
          wire_LapComplete (dec (unat (lap_number (lap_data e))))
            (dec (unat (lap_time_ms (lap_data e)))) (dec (unat (split_time_ms (lap_data e))))
            (dec (unat (timestamp_ms e)))
      | EVENT_WORKOUT_STOP \<Rightarrow>
          wire_Stop (dec (unat (event_current_lap e)))
            (dec (unat (timestamp_ms e - workout_start_ms (s_session w))))
            (dec (unat (timestamp_ms e)))
      | EVENT_WORKOUT_DONE \<Rightarrow>
          wire_Done (dec (unat (total_laps (config (s_session w)))))
            (dec (unat (split_time_ms (lap_data e)))) (dec (unat (timestamp_ms e)))
      | EVENT_STATUS_UPDATE \<Rightarrow>
          wire_StatusUpdate (wire_state_name (state (s_session w)))
            (dec (unat (event_current_lap e))) (dec (unat (Workout_GetElapsedMs t1 t2 w))))"

section \<open>Control coordinator (control\_task.c)\<close>

datatype CtrlState = CTRL_STATE_IDLE | CTRL_STATE_RUNNING | CTRL_STATE_HR_MEASUREMENT

datatype ButtonEventType =
  BTN_NONE | BTN_START | BTN_LAP | BTN_STOP | BTN_MODE_NEXT | BTN_STATUS

datatype BleCtrlEventType =
  BLE_CTRL_EVT_NONE | BLE_CTRL_EVT_HR_DONE | BLE_CTRL_EVT_CONNECTED | BLE_CTRL_EVT_DISCONNECTED

definition HR_CONFIRM_TIMEOUT_MS :: u32 where
  "HR_CONFIRM_TIMEOUT_MS = 5000"

definition EVENT_QUEUE_LENGTH :: nat where
  "EVENT_QUEUE_LENGTH = 4"

text \<open>
  The state the control task works on: the lifecycle module's variables, the coordinator
  state, the HR wait session \<^verbatim>\<open>s_hrWait\<close>, and the transmission queue \<^verbatim>\<open>g_eventQueue\<close>
  of ble\_tx.c as the list of events waiting in it. The handlers read only the type of a
  button or BLE control event, so they take the type. Each handler takes the clock value
  \<open>now\<close> that its calls of \<^verbatim>\<open>Time_GetMs\<close> return. \<^verbatim>\<open>sendHrRequest\<close> only talks to the
  transport and changes none of this state; it is left out.
\<close>

record ControlTask =
  workout :: Workout
  s_currentState :: CtrlState
  s_hrWait_startMs :: u32
  s_hrWait_active :: bool
  g_eventQueue :: "WorkoutEvent list"

definition ControlTask_Init :: ControlTask where
  "ControlTask_Init =
     \<lparr>workout = Workout_Init, s_currentState = CTRL_STATE_IDLE, s_hrWait_startMs = 0,
      s_hrWait_active = False, g_eventQueue = []\<rparr>"

text \<open>\<^verbatim>\<open>xQueueSend\<close> with no wait: the event is dropped when the queue is full.\<close>

definition BleTx_SendEvent :: "WorkoutEvent \<Rightarrow> ControlTask \<Rightarrow> bool \<times> ControlTask" where
  "BleTx_SendEvent e c =
     (if length (g_eventQueue c) < EVENT_QUEUE_LENGTH
      then (True, c\<lparr>g_eventQueue := g_eventQueue c @ [e]\<rparr>)
      else (False, c))"

definition enterHrWaitState :: "u32 \<Rightarrow> ControlTask \<Rightarrow> ControlTask" where
  "enterHrWaitState now c =
     c\<lparr>workout := snd (Workout_Pause now (workout c)),
       s_hrWait_startMs := now, s_hrWait_active := True,
       s_currentState := CTRL_STATE_HR_MEASUREMENT\<rparr>"

definition exitHrWaitState :: "bool \<Rightarrow> u32 \<Rightarrow> ControlTask \<Rightarrow> ControlTask" where
  "exitHrWaitState confirmed now c =
     (let c1 = c\<lparr>s_hrWait_active := False\<rparr>;
          c2 = (case Workout_RecordLap now (workout c1) of
                  (LapOk lap, w1) \<Rightarrow>
                    let evt = zero_event
                          \<lparr>event_type := (if Workout_GetState w1 = STATE_COMPLETED
                                          then EVENT_WORKOUT_DONE else EVENT_LAP_COMPLETE),
                           timestamp_ms := now, lap_data := lap\<rparr>
                    in snd (BleTx_SendEvent evt (c1\<lparr>workout := w1\<rparr>))
                | (_, w1) \<Rightarrow> c1\<lparr>workout := w1\<rparr>)
      in if Workout_GetState (workout c2) \<noteq> STATE_COMPLETED
         then c2\<lparr>workout := snd (Workout_Start now (workout c2)),
                 s_currentState := CTRL_STATE_RUNNING\<rparr>
         else c2\<lparr>s_currentState := CTRL_STATE_IDLE\<rparr>)"

definition handleButtonEvent :: "ButtonEventType \<Rightarrow> u32 \<Rightarrow> ControlTask \<Rightarrow> ControlTask" where
  "handleButtonEvent evt now c =
     (case s_currentState c of
        CTRL_STATE_IDLE \<Rightarrow>
          if evt = BTN_START then
            (case Workout_Start now (workout c) of
               (True, w1) \<Rightarrow> c\<lparr>workout := w1, s_currentState := CTRL_STATE_RUNNING\<rparr>
             | (False, w1) \<Rightarrow> c\<lparr>workout := w1\<rparr>)
          else c
      | CTRL_STATE_RUNNING \<Rightarrow>
          if evt = BTN_LAP then enterHrWaitState now c
          else if evt = BTN_STOP then c\<lparr>workout := snd (Workout_Pause now (workout c))\<rparr>
          else c
      | CTRL_STATE_HR_MEASUREMENT \<Rightarrow>
          if evt = BTN_STOP then exitHrWaitState False now c else c)"

definition handleBleCtrlEvent :: "BleCtrlEventType \<Rightarrow> u32 \<Rightarrow> ControlTask \<Rightarrow> ControlTask" where
  "handleBleCtrlEvent evt now c =
     (if evt = BLE_CTRL_EVT_HR_DONE \<and> s_currentState c = CTRL_STATE_HR_MEASUREMENT \<and>
         s_hrWait_active c
      then exitHrWaitState True now c else c)"

text \<open>
  One pass through the body of the loop of \<^verbatim>\<open>ControlTask_Run\<close>: \<open>btn\<close> and \<open>ble\<close> are
  what the two \<^verbatim>\<open>xQueueReceive\<close> calls deliver (\<open>None\<close> when the receive times out or the
  queue is empty), \<open>tBtn\<close> and \<open>tBle\<close> the clock values while the two handlers run, and
  \<open>tNow\<close> the clock value the timeout check reads.
\<close>

definition ControlTask_Run_iteration ::
  "ButtonEventType option \<Rightarrow> BleCtrlEventType option \<Rightarrow> u32 \<Rightarrow> u32 \<Rightarrow> u32 \<Rightarrow>
     ControlTask \<Rightarrow> ControlTask" where
  "ControlTask_Run_iteration btn ble tBtn tBle tNow c =
     (let c1 = (case btn of Some b \<Rightarrow> handleButtonEvent b tBtn c | None \<Rightarrow> c);
          c2 = (case ble of Some e \<Rightarrow> handleBleCtrlEvent e tBle c1 | None \<Rightarrow> c1)
      in if s_currentState c2 = CTRL_STATE_HR_MEASUREMENT \<and> s_hrWait_active c2
         then (if tNow - s_hrWait_startMs c2 > HR_CONFIRM_TIMEOUT_MS
               then exitHrWaitState False tNow c2 else c2)
         else c2)"

section \<open>Worked examples\<close>

text \<open>Concrete events for the worked examples: event number \<open>n\<close> of a run of pushes,
  a lap event and a start event.\<close>

definition ev :: "nat \<Rightarrow> WorkoutEvent" where
  "ev n = zero_event\<lparr>timestamp_ms := word_of_nat n\<rparr>"

definition lap_event :: WorkoutEvent where
  "lap_event = \<lparr>event_type = EVENT_LAP_COMPLETE, timestamp_ms = 2500, event_current_lap = 0,
     lap_data = \<lparr>lap_number = 2, lap_time_ms = 1500, split_time_ms = 2500\<rparr>\<rparr>"

definition start_event :: WorkoutEvent where
  "start_event = zero_event\<lparr>event_type := EVENT_WORKOUT_START, timestamp_ms := 10\<rparr>"

text \<open>
  Sessions for the worked examples: a workout started 296 ms before the clock wraps, one
  started at uptime 0, and an idle session in the two-lap mode.
\<close>

definition running_near_wrap :: Workout where
  "running_near_wrap = snd (Workout_Start (Time_GetMs 4294967000) Workout_Init)"

definition running_from_boot :: Workout where
  "running_from_boot = snd (Workout_Start (Time_GetMs 0) Workout_Init)"

definition two_lap_workout :: Workout where
  "two_lap_workout = run_ops [OpSetMode MODE_2x2000M] Workout_Init"

text \<open>
  Coordinator states for the worked examples: after the Start button at clock 0, and after
  the Lap button at clock 1000 that follows it.
\<close>

definition running_coordinator :: ControlTask where
  "running_coordinator = handleButtonEvent BTN_START 0 ControlTask_Init"

definition hr_wait_entered :: ControlTask where
  "hr_wait_entered = handleButtonEvent BTN_LAP 1000 running_coordinator"

section \<open>Invalid transitions leave the state alone\<close>

text \<open>
  C4. Every lifecycle operation called in a state where it is invalid (SetMode or CycleMode
  outside Idle, Start while Running or Completed, RecordLap or Pause outside Running, Stop
  while Idle or Completed) returns failure and leaves the session and both pause-time
  accumulators exactly as they were.
\<close>

theorem invalid_op_fails_unchanged:
  "invalid_in op (Workout_GetState w) \<Longrightarrow> run_op op w = (False, w)"
  by (cases op)
     (auto simp: Workout_GetState_def Workout_SetMode_def Workout_CycleMode_def
        Workout_Start_def Workout_RecordLap_def Workout_Pause_def Workout_Stop_def)

theorem invalid_op_fails_unchanged_witness:
  "invalid_in (OpRecordLap 1000) (Workout_GetState Workout_Init) \<and>
   run_op (OpRecordLap 1000) Workout_Init = (False, Workout_Init)"
  using invalid_op_fails_unchanged [of "OpRecordLap 1000" Workout_Init]
  by (simp add: Workout_GetState_def Workout_Init_def zero_session_def)


section \<open>Elapsed time\<close>

lemma running_near_wrap_eq:
  "running_near_wrap =
     Workout_Init\<lparr>s_session := (s_session Workout_Init)\<lparr>state := STATE_RUNNING, current_lap := 1,
                                   workout_start_ms := 4294967000, lap_start_ms := 4294967000\<rparr>,
                   s_totalPausedMs := 0\<rparr>"
  by (simp add: running_near_wrap_def Workout_Start_def Workout_Init_def zero_session_def
      Time_GetMs_def)

lemma running_from_boot_eq:
  "running_from_boot =
     Workout_Init\<lparr>s_session := (s_session Workout_Init)\<lparr>state := STATE_RUNNING, current_lap := 1,
                                   workout_start_ms := 0, lap_start_ms := 0\<rparr>,
                   s_totalPausedMs := 0\<rparr>"
  by (simp add: running_from_boot_def Workout_Start_def Workout_Init_def zero_session_def
      Time_GetMs_def)

text \<open>
  The claim that the elapsed time never decreases while Running fails when the elapsed
  count itself passes \<open>2 ^ 32 - 1\<close>: for a workout started at uptime 0, the query at
  uptime 4294967295 returns 4294967295 and the query one millisecond later returns 0.
\<close>

theorem elapsed_wraps_counterexample:
  "Workout_GetState running_from_boot = STATE_RUNNING \<and> (4294967295::nat) \<le> 4294967296 \<and>
   \<not> Workout_GetElapsedMs (Time_GetMs 4294967295) (Time_GetMs 4294967295) running_from_boot
     \<le> Workout_GetElapsedMs (Time_GetMs 4294967296) (Time_GetMs 4294967296) running_from_boot"
  by (simp add: running_from_boot_eq Workout_GetState_def Workout_GetElapsedMs_def Time_GetMs_def
      Workout_Init_def zero_session_def)

lemma Time_GetMs_later:
  assumes "T1 \<le> T2"
  shows "Time_GetMs T2 = Time_GetMs T1 + word_of_nat (T2 - T1)"
  using assms by (simp add: Time_GetMs_def of_nat_diff)

lemma word_add_nat_le:
  fixes x :: u32
  assumes "unat x + d < 2 ^ 32"
  shows "x \<le> x + word_of_nat d" and "unat (x + word_of_nat d) = unat x + d"
proof -
  have d: "unat (word_of_nat d :: u32) = d"
    using assms by (simp add: unat_of_nat)
  then show "unat (x + word_of_nat d) = unat x + d"
    using assms by (simp add: unat_add_lem [THEN iffD1])
  then show "x \<le> x + word_of_nat d"
    by (simp add: word_le_nat_alt)
qed

text \<open>
  C6 (amended). \<^verbatim>\<open>Workout_GetElapsedMs\<close> returns 0 whenever the session is Idle. While
  Paused it is frozen: a query returns the same value at every clock value, wrapped or
  not (a query being taken at one clock value). While Running it does not decrease from a
  query at uptime \<open>T1\<close> to a query at uptime \<open>T2 \<ge> T1\<close> as long as the elapsed value at
  \<open>T1\<close> plus \<open>T2 - T1\<close> stays below \<open>2 ^ 32\<close>, also when the 32-bit clock wraps between
  the two. A Pause freezes the value it had at the Pause, and the resuming Start continues
  from that value. All of this holds in every state, so after any sequence of calls.
\<close>

theorem elapsed_idle_frozen_monotone:
  "(Workout_GetState w = STATE_IDLE \<longrightarrow> Workout_GetElapsedMs t1 t2 w = 0) \<and>
   (Workout_GetState w = STATE_PAUSED \<longrightarrow>
      Workout_GetElapsedMs t t w = Workout_GetElapsedMs t' t' w) \<and>
   (Workout_GetState w = STATE_RUNNING \<and> T1 \<le> T2 \<and>
    unat (Workout_GetElapsedMs (Time_GetMs T1) (Time_GetMs T1) w) + (T2 - T1) < 2 ^ 32 \<longrightarrow>
      Workout_GetElapsedMs (Time_GetMs T1) (Time_GetMs T1) w
        \<le> Workout_GetElapsedMs (Time_GetMs T2) (Time_GetMs T2) w) \<and>
   (Workout_GetState w = STATE_RUNNING \<longrightarrow>
      Workout_GetElapsedMs t t (snd (Workout_Pause tp w)) = Workout_GetElapsedMs tp tp w \<and>
      Workout_GetElapsedMs tr tr (snd (Workout_Start tr (snd (Workout_Pause tp w))))
        = Workout_GetElapsedMs tp tp w)"
proof (intro conjI impI)
  assume "Workout_GetState w = STATE_IDLE"
  then show "Workout_GetElapsedMs t1 t2 w = 0"
    by (simp add: Workout_GetElapsedMs_def Workout_GetState_def)
next
  assume "Workout_GetState w = STATE_PAUSED"
  then show "Workout_GetElapsedMs t t w = Workout_GetElapsedMs t' t' w"
    by (simp add: Workout_GetElapsedMs_def Workout_GetState_def)
next
  assume a: "Workout_GetState w = STATE_RUNNING \<and> T1 \<le> T2 \<and>
    unat (Workout_GetElapsedMs (Time_GetMs T1) (Time_GetMs T1) w) + (T2 - T1) < 2 ^ 32"
  let ?e1 = "Workout_GetElapsedMs (Time_GetMs T1) (Time_GetMs T1) w"
  from a have run: "Workout_GetState w = STATE_RUNNING" and le: "T1 \<le> T2"
    and small: "unat ?e1 + (T2 - T1) < 2 ^ 32"
    by blast+
  have "Workout_GetElapsedMs (Time_GetMs T2) (Time_GetMs T2) w = ?e1 + word_of_nat (T2 - T1)"
    using run by (simp add: Workout_GetElapsedMs_def Workout_GetState_def
        Time_GetMs_later [OF le])
  with word_add_nat_le(1) [OF small]
  show "?e1 \<le> Workout_GetElapsedMs (Time_GetMs T2) (Time_GetMs T2) w"
    by (simp only:)
next
  assume "Workout_GetState w = STATE_RUNNING"
  then show "Workout_GetElapsedMs t t (snd (Workout_Pause tp w)) = Workout_GetElapsedMs tp tp w"
    by (simp add: Workout_GetElapsedMs_def Workout_GetState_def Workout_Pause_def)
next
  assume "Workout_GetState w = STATE_RUNNING"
  then show "Workout_GetElapsedMs tr tr (snd (Workout_Start tr (snd (Workout_Pause tp w))))
        = Workout_GetElapsedMs tp tp w"
    by (simp add: Workout_GetElapsedMs_def Workout_GetState_def Workout_Pause_def
        Workout_Start_def)
qed

theorem elapsed_idle_frozen_monotone_witness:
  "Workout_GetState running_near_wrap = STATE_RUNNING \<and> (4294967290::nat) \<le> 4294967300 \<and>
   unat (Workout_GetElapsedMs (Time_GetMs 4294967290) (Time_GetMs 4294967290) running_near_wrap)
     + (4294967300 - 4294967290) < 2 ^ 32 \<and>
   Time_GetMs 4294967300 = 4 \<and>
   Workout_GetElapsedMs (Time_GetMs 4294967290) (Time_GetMs 4294967290) running_near_wrap
     \<le> Workout_GetElapsedMs (Time_GetMs 4294967300) (Time_GetMs 4294967300) running_near_wrap \<and>
   Workout_GetState Workout_Init = STATE_IDLE \<and> Workout_GetElapsedMs 5 5 Workout_Init = 0 \<and>
   Workout_GetState (snd (Workout_Pause 7 running_from_boot)) = STATE_PAUSED \<and>
   Workout_GetElapsedMs 9 9 (snd (Workout_Pause 7 running_from_boot)) = 7"
  using elapsed_idle_frozen_monotone
    [of running_near_wrap 5 5 9 9 4294967290 4294967300 7 9]
  by (simp add: running_near_wrap_eq running_from_boot_eq Workout_GetState_def
      Workout_GetElapsedMs_def Time_GetMs_def Workout_Init_def zero_session_def Workout_Pause_def)

section \<open>Recording the laps of a workout\<close>

lemma RecordLap_last:
  assumes "state (s_session w) = STATE_RUNNING"
    and "1 \<le> unat (current_lap (s_session w))"
    and "unat (current_lap (s_session w)) \<le> MAX_LAPS"
    and "unat (total_laps (config (s_session w))) \<le> unat (current_lap (s_session w))"
  shows "Workout_RecordLap now w =
           (LapOk \<lparr>lap_number = current_lap (s_session w),
                   lap_time_ms = now - lap_start_ms (s_session w),
                   split_time_ms = now - workout_start_ms (s_session w) - s_totalPausedMs w\<rparr>,
            w\<lparr>s_session := (s_session w)
                 \<lparr>laps := (laps (s_session w))
                    [unat (current_lap (s_session w)) - 1 :=
                       \<lparr>lap_number = current_lap (s_session w),
                        lap_time_ms = now - lap_start_ms (s_session w),
                        split_time_ms = now - workout_start_ms (s_session w) - s_totalPausedMs w\<rparr>],
                  state := STATE_COMPLETED\<rparr>\<rparr>)"
proof -
  have nz: "current_lap (s_session w) \<noteq> 0"
    using assms(2) by (auto simp: unat_gt_0 [symmetric])
  have idx: "unat (current_lap (s_session w) - 1) = unat (current_lap (s_session w)) - 1"
    using nz by (rule unat_minus_one)
  have ge: "total_laps (config (s_session w)) \<le> current_lap (s_session w)"
    using assms(4) by (simp add: word_le_nat_alt)
  show ?thesis
    using assms(1,2,3) ge
    by (simp add: Workout_RecordLap_def Let_def idx)
qed

lemma RecordLap_next:
  assumes "state (s_session w) = STATE_RUNNING"
    and "1 \<le> unat (current_lap (s_session w))"
    and "unat (current_lap (s_session w)) < unat (total_laps (config (s_session w)))"
    and "unat (total_laps (config (s_session w))) \<le> MAX_LAPS"
  shows "Workout_RecordLap now w =
           (LapOk \<lparr>lap_number = current_lap (s_session w),
                   lap_time_ms = now - lap_start_ms (s_session w),
                   split_time_ms = now - workout_start_ms (s_session w) - s_totalPausedMs w\<rparr>,
            w\<lparr>s_session := (s_session w)
                 \<lparr>laps := (laps (s_session w))
                    [unat (current_lap (s_session w)) - 1 :=
                       \<lparr>lap_number = current_lap (s_session w),
                        lap_time_ms = now - lap_start_ms (s_session w),
                        split_time_ms = now - workout_start_ms (s_session w) - s_totalPausedMs w\<rparr>],
                  current_lap := current_lap (s_session w) + 1, lap_start_ms := now\<rparr>\<rparr>)"
    and "unat (current_lap (s_session w) + 1) = unat (current_lap (s_session w)) + 1"
proof -
  have nz: "current_lap (s_session w) \<noteq> 0"
    using assms(2) by (auto simp: unat_gt_0 [symmetric])
  have idx: "unat (current_lap (s_session w) - 1) = unat (current_lap (s_session w)) - 1"
    using nz by (rule unat_minus_one)
  have lt: "\<not> total_laps (config (s_session w)) \<le> current_lap (s_session w)"
    using assms(3) by (simp add: word_le_nat_alt)
  show "Workout_RecordLap now w =
           (LapOk \<lparr>lap_number = current_lap (s_session w),
                   lap_time_ms = now - lap_start_ms (s_session w),
                   split_time_ms = now - workout_start_ms (s_session w) - s_totalPausedMs w\<rparr>,
            w\<lparr>s_session := (s_session w)
                 \<lparr>laps := (laps (s_session w))
                    [unat (current_lap (s_session w)) - 1 :=
                       \<lparr>lap_number = current_lap (s_session w),
                        lap_time_ms = now - lap_start_ms (s_session w),
                        split_time_ms = now - workout_start_ms (s_session w) - s_totalPausedMs w\<rparr>],
                  current_lap := current_lap (s_session w) + 1, lap_start_ms := now\<rparr>\<rparr>)"
    using assms lt
    by (simp add: Workout_RecordLap_def Let_def idx)
  have "unat (current_lap (s_session w)) + unat (1 :: u8) < 2 ^ LENGTH(8)"
    using assms(3,4) by (simp add: MAX_LAPS_def)
  then show "unat (current_lap (s_session w) + 1) = unat (current_lap (s_session w)) + 1"
    by (simp add: unat_add_lem [THEN iffD1])
qed

lemma record_laps_Cons:
  "fst (record_laps (t # ts) w)
     = fst (Workout_RecordLap t w) # fst (record_laps ts (snd (Workout_RecordLap t w)))"
  "snd (record_laps (t # ts) w) = snd (record_laps ts (snd (Workout_RecordLap t w)))"
  by (simp_all split: prod.splits)

lemma record_laps_run:
  assumes "state (s_session w) = STATE_RUNNING"
    and "1 \<le> unat (current_lap (s_session w))"
    and "unat (current_lap (s_session w)) + length ts = unat (total_laps (config (s_session w))) + 1"
    and "ts \<noteq> []"
    and "unat (total_laps (config (s_session w))) \<le> MAX_LAPS"
  shows "Workout_GetState (snd (record_laps ts w)) = STATE_COMPLETED \<and>
         list_all (\<lambda>r. recorded r \<noteq> None) (fst (record_laps ts w)) \<and>
         lap_splits (fst (record_laps ts w))
           = map (\<lambda>t. t - workout_start_ms (s_session w) - s_totalPausedMs w) ts"
  using assms
proof (induction ts arbitrary: w)
  case Nil
  then show ?case by simp
next
  case (Cons t ts)
  show ?case
  proof (cases "ts = []")
    case True
    with Cons.prems have "unat (total_laps (config (s_session w))) \<le> unat (current_lap (s_session w))"
      and "unat (current_lap (s_session w)) \<le> MAX_LAPS"
      by simp_all
    from RecordLap_last [OF Cons.prems(1,2) this(2,1), of t] True show ?thesis
      by (simp add: record_laps_Cons Workout_GetState_def lap_splits_def List.map_filter_simps
          del: record_laps.simps(2))
  next
    case False
    with Cons.prems
    have lt: "unat (current_lap (s_session w)) < unat (total_laps (config (s_session w)))"
      by (cases ts) simp_all
    note step = RecordLap_next(1) [OF Cons.prems(1,2) lt Cons.prems(5), of t]
      RecordLap_next(2) [OF Cons.prems(1,2) lt Cons.prems(5)]
    let ?w1 = "snd (Workout_RecordLap t w)"
    have IH: "Workout_GetState (snd (record_laps ts ?w1)) = STATE_COMPLETED \<and>
         list_all (\<lambda>r. recorded r \<noteq> None) (fst (record_laps ts ?w1)) \<and>
         lap_splits (fst (record_laps ts ?w1))
           = map (\<lambda>t. t - workout_start_ms (s_session ?w1) - s_totalPausedMs ?w1) ts"
      using Cons.prems False step(2)
      by (intro Cons.IH) (simp_all add: step(1))
    then show ?thesis
      by (simp add: record_laps_Cons step(1) lap_splits_def List.map_filter_simps
          del: record_laps.simps(2))
  qed
qed


lemma Start_from_idle:
  assumes "Workout_GetState w = STATE_IDLE"
  shows "snd (Workout_Start now w) =
           w\<lparr>s_session := (s_session w)\<lparr>state := STATE_RUNNING, current_lap := 1,
                                  workout_start_ms := now, lap_start_ms := now\<rparr>,
             s_totalPausedMs := 0\<rparr>"
  using assms by (simp add: Workout_Start_def Workout_GetState_def)

lemma Time_GetMs_diff:
  assumes "T0 \<le> T" and "T - T0 < 2 ^ 32"
  shows "unat (Time_GetMs T - Time_GetMs T0) = T - T0"
proof -
  have "Time_GetMs T - Time_GetMs T0 = (word_of_nat (T - T0) :: u32)"
    using assms(1) by (simp add: Time_GetMs_def of_nat_diff)
  then show ?thesis
    using assms(2) by (simp add: unat_of_nat)
qed

lemma sorted_splits:
  assumes "sorted Ts" and "\<forall>T \<in> set Ts. T0 \<le> T \<and> T - T0 < 2 ^ 32"
  shows "sorted (map (\<lambda>t. t - Time_GetMs T0 - 0) (map Time_GetMs Ts))"
proof -
  have "sorted_wrt (\<lambda>a b. Time_GetMs a - Time_GetMs T0 \<le> Time_GetMs b - Time_GetMs T0) Ts"
  proof (rule sorted_wrt_mono_rel [of Ts "(\<le>)"])
    fix a b assume "a \<in> set Ts" "b \<in> set Ts" "a \<le> b"
    then show "Time_GetMs a - Time_GetMs T0 \<le> Time_GetMs b - Time_GetMs T0"
      using assms(2) by (simp add: word_le_nat_alt Time_GetMs_diff)
  next
    show "sorted_wrt (\<le>) Ts" using assms(1) by simp
  qed
  then show ?thesis
    by (simp add: sorted_map comp_def)
qed

lemma record_all_laps:
  assumes "Workout_GetState w = STATE_IDLE"
    and "1 \<le> unat (total_laps (config (s_session w)))"
    and "unat (total_laps (config (s_session w))) \<le> MAX_LAPS"
    and "length Ts = unat (total_laps (config (s_session w)))"
  shows "Workout_GetState
           (snd (record_laps (map Time_GetMs Ts) (snd (Workout_Start (Time_GetMs T0) w))))
           = STATE_COMPLETED \<and>
         list_all (\<lambda>r. recorded r \<noteq> None)
           (fst (record_laps (map Time_GetMs Ts) (snd (Workout_Start (Time_GetMs T0) w)))) \<and>
         length (lap_splits
           (fst (record_laps (map Time_GetMs Ts) (snd (Workout_Start (Time_GetMs T0) w)))))
           = unat (total_laps (config (s_session w))) \<and>
         (sorted (T0 # Ts) \<and> (\<forall>T \<in> set Ts. T - T0 < 2 ^ 32) \<longrightarrow>
            sorted (lap_splits
              (fst (record_laps (map Time_GetMs Ts) (snd (Workout_Start (Time_GetMs T0) w))))))"
proof -
  let ?w1 = "snd (Workout_Start (Time_GetMs T0) w)"
  note w1 = Start_from_idle [OF assms(1), of "Time_GetMs T0"]
  have ne: "map Time_GetMs Ts \<noteq> []"
    using assms(2,4) by auto
  have run: "Workout_GetState (snd (record_laps (map Time_GetMs Ts) ?w1)) = STATE_COMPLETED \<and>
         list_all (\<lambda>r. recorded r \<noteq> None) (fst (record_laps (map Time_GetMs Ts) ?w1)) \<and>
         lap_splits (fst (record_laps (map Time_GetMs Ts) ?w1))
           = map (\<lambda>t. t - workout_start_ms (s_session ?w1) - s_totalPausedMs ?w1)
               (map Time_GetMs Ts)"
    using assms ne by (intro record_laps_run) (simp_all add: w1)
  then have splits: "lap_splits (fst (record_laps (map Time_GetMs Ts) ?w1))
           = map (\<lambda>t. t - Time_GetMs T0 - 0) (map Time_GetMs Ts)"
    by (simp add: w1)
  have "sorted (lap_splits (fst (record_laps (map Time_GetMs Ts) ?w1)))"
    if "sorted (T0 # Ts) \<and> (\<forall>T \<in> set Ts. T - T0 < 2 ^ 32)"
    unfolding splits using that by (intro sorted_splits) auto
  moreover have "length (lap_splits (fst (record_laps (map Time_GetMs Ts) ?w1)))
           = unat (total_laps (config (s_session w)))"
    unfolding splits using assms(4) by simp
  ultimately show ?thesis
    using run by blast
qed

lemma record_laps_unfold:
  "record_laps (t # ts) w =
     (fst (Workout_RecordLap t w) # fst (record_laps ts (snd (Workout_RecordLap t w))),
      snd (record_laps ts (snd (Workout_RecordLap t w))))"
  by (simp split: prod.splits)

section \<open>The lap bookkeeping invariant\<close>

lemma populated_below_iff:
  "populated_below w n \<longleftrightarrow> (\<forall>i < MAX_LAPS. populated w i \<longleftrightarrow> i < n)"
  by (auto simp add: populated_below_def list_all_iff)

lemma populated_below_laps:
  "laps (s_session w') = laps (s_session w) \<Longrightarrow> populated_below w' n = populated_below w n"
  by (simp add: populated_below_iff populated_def)

lemma populated_below_update:
  assumes "populated_below w n" and "length (laps (s_session w)) = MAX_LAPS" and "n < MAX_LAPS"
    and "lap_number lap \<noteq> 0"
    and "laps (s_session w') = (laps (s_session w))[n := lap]"
  shows "populated_below w' (Suc n)"
  unfolding populated_below_iff populated_def
proof (intro allI impI)
  fix i assume "i < MAX_LAPS"
  show "(lap_number (laps (s_session w') ! i) \<noteq> 0) = (i < Suc n)"
  proof (cases "i = n")
    case True
    then show ?thesis using assms by simp
  next
    case False
    then have "laps (s_session w') ! i = laps (s_session w) ! i"
      using assms(5) by simp
    moreover have "(lap_number (laps (s_session w) ! i) \<noteq> 0) = (i < n)"
      using assms(1) \<open>i < MAX_LAPS\<close> by (simp add: populated_below_iff populated_def)
    ultimately show ?thesis using False by auto
  qed
qed

lemma populated_below_zero:
  "laps (s_session w) = replicate MAX_LAPS zero_lap \<Longrightarrow> populated_below w 0"
  by (simp add: populated_below_iff populated_def zero_lap_def)

lemma setModeConfig_fields:
  "state (setModeConfig m s) = state s" "laps (setModeConfig m s) = laps s"
  "current_lap (setModeConfig m s) = current_lap s"
  "Suc 0 \<le> unat (total_laps (config (setModeConfig m s)))"
  "unat (total_laps (config (setModeConfig m s))) \<le> MAX_LAPS"
  by (cases m; simp add: MAX_LAPS_def)+

lemma lap_invariant_fresh:
  "lap_invariant \<lparr>s_session = setModeConfig m (zero_session\<lparr>state := STATE_IDLE\<rparr>),
                   s_pauseStartMs = 0, s_totalPausedMs = 0\<rparr>"
proof -
  let ?w = "\<lparr>s_session = setModeConfig m (zero_session\<lparr>state := STATE_IDLE\<rparr>),
             s_pauseStartMs = 0, s_totalPausedMs = 0\<rparr>"
  have "populated_below ?w 0"
    by (rule populated_below_zero) (simp add: setModeConfig_fields zero_session_def)
  then show ?thesis
    by (simp add: lap_invariant_def Let_def setModeConfig_fields)
       (simp add: zero_session_def)
qed

lemma lap_invariant_Init: "lap_invariant Workout_Init"
  unfolding Workout_Init_def by (rule lap_invariant_fresh)

lemma lap_invariant_Reset: "lap_invariant (Workout_Reset w)"
  unfolding Workout_Reset_def Let_def by (rule lap_invariant_fresh)

lemma lap_invariant_SetMode:
  assumes "lap_invariant w"
  shows "lap_invariant (snd (Workout_SetMode m w))"
proof (cases "state (s_session w) = STATE_IDLE")
  case True
  then have "populated_below (w\<lparr>s_session := setModeConfig m (s_session w)\<rparr>) 0"
    using assms populated_below_laps [of "w\<lparr>s_session := setModeConfig m (s_session w)\<rparr>" w 0]
    by (simp add: lap_invariant_def Let_def setModeConfig_fields)
  with True assms show ?thesis
    by (simp add: Workout_SetMode_def lap_invariant_def Let_def setModeConfig_fields)
next
  case False
  with assms show ?thesis by (simp add: Workout_SetMode_def)
qed

lemma CycleMode_as_SetMode:
  "snd (Workout_CycleMode w) =
     snd (Workout_SetMode
            (mode_of_value ((mode_value (mode (config (s_session w))) + 1) mod 4)) w)"
  by (simp add: Workout_CycleMode_def Workout_SetMode_def Let_def)

lemma lap_invariant_Start:
  assumes "lap_invariant w"
  shows "lap_invariant (snd (Workout_Start now w))"
proof (cases "state (s_session w)")
  case STATE_IDLE
  let ?w' = "snd (Workout_Start now w)"
  have "laps (s_session ?w') = laps (s_session w)"
    using STATE_IDLE by (simp add: Workout_Start_def)
  then have "populated_below ?w' 0 = populated_below w 0"
    by (rule populated_below_laps)
  with STATE_IDLE assms show ?thesis
    by (simp add: lap_invariant_def Let_def) (simp add: Workout_Start_def)
next
  case STATE_PAUSED
  let ?w' = "snd (Workout_Start now w)"
  have "laps (s_session ?w') = laps (s_session w)"
    using STATE_PAUSED by (simp add: Workout_Start_def)
  then have "populated_below ?w' (unat (current_lap (s_session w)) - 1)
               = populated_below w (unat (current_lap (s_session w)) - 1)"
    by (rule populated_below_laps)
  with STATE_PAUSED assms show ?thesis
    by (simp add: lap_invariant_def Let_def) (simp add: Workout_Start_def)
qed (use assms in \<open>simp_all add: Workout_Start_def\<close>)

lemma lap_invariant_Pause:
  assumes "lap_invariant w"
  shows "lap_invariant (snd (Workout_Pause now w))"
proof (cases "state (s_session w) = STATE_RUNNING")
  case True
  let ?w' = "snd (Workout_Pause now w)"
  have "laps (s_session ?w') = laps (s_session w)"
    using True by (simp add: Workout_Pause_def)
  then have "populated_below ?w' (unat (current_lap (s_session w)) - 1)
               = populated_below w (unat (current_lap (s_session w)) - 1)"
    by (rule populated_below_laps)
  with True assms show ?thesis
    by (simp add: lap_invariant_def Let_def) (simp add: Workout_Pause_def)
next
  case False
  with assms show ?thesis by (simp add: Workout_Pause_def)
qed

lemma lap_invariant_Stop:
  assumes "lap_invariant w"
  shows "lap_invariant (snd (Workout_Stop w))"
proof (cases "state (s_session w) = STATE_IDLE \<or> state (s_session w) = STATE_COMPLETED")
  case False
  let ?w' = "snd (Workout_Stop w)"
  have "laps (s_session ?w') = laps (s_session w)"
    using False by (simp add: Workout_Stop_def)
  then have pb: "populated_below ?w' (unat (current_lap (s_session w)) - 1)
               = populated_below w (unat (current_lap (s_session w)) - 1)"
    by (rule populated_below_laps)
  from False assms have "state (s_session w) = STATE_RUNNING \<or> state (s_session w) = STATE_PAUSED"
    by (cases "state (s_session w)") (simp_all add: lap_invariant_def Let_def)
  with False assms pb show ?thesis
    by (simp add: lap_invariant_def Let_def) (auto simp add: Workout_Stop_def)
next
  case True
  with assms show ?thesis by (auto simp add: Workout_Stop_def)
qed

lemma lap_invariant_RecordLap:
  assumes "lap_invariant w"
  shows "lap_invariant (snd (Workout_RecordLap now w)) \<and>
         fst (Workout_RecordLap now w) \<noteq> LapOutOfBounds \<and>
         (Workout_GetState w = STATE_RUNNING \<and>
          Workout_GetState (snd (Workout_RecordLap now w)) = STATE_COMPLETED \<longrightarrow>
            populated_below (snd (Workout_RecordLap now w))
              (unat (total_laps (config (s_session w)))))"
proof (cases "state (s_session w) = STATE_RUNNING")
  case False
  with assms show ?thesis by (simp add: Workout_RecordLap_def Let_def Workout_GetState_def)
next
  case True
  let ?cur = "unat (current_lap (s_session w))"
  let ?tot = "unat (total_laps (config (s_session w)))"
  let ?lap = "\<lparr>lap_number = current_lap (s_session w),
                lap_time_ms = now - lap_start_ms (s_session w),
                split_time_ms = now - workout_start_ms (s_session w) - s_totalPausedMs w\<rparr>"
  let ?w' = "snd (Workout_RecordLap now w)"
  from assms True have len: "length (laps (s_session w)) = MAX_LAPS"
    and tot: "1 \<le> ?tot" "?tot \<le> MAX_LAPS" and cur: "1 \<le> ?cur" "?cur \<le> ?tot"
    and pb: "populated_below w (?cur - 1)"
    by (simp_all add: lap_invariant_def Let_def)
  have nz: "lap_number ?lap \<noteq> 0"
    using cur(1) by (auto simp: unat_gt_0 [symmetric])
  show ?thesis
  proof (cases "?cur = ?tot")
    case last: True
    note step = RecordLap_last [OF True cur(1), of now]
    have eq: "Workout_RecordLap now w = (LapOk ?lap,
            w\<lparr>s_session := (s_session w)\<lparr>laps := (laps (s_session w))[?cur - 1 := ?lap],
                                          state := STATE_COMPLETED\<rparr>\<rparr>)"
      using step last tot(2) by simp
    have "populated_below ?w' (Suc (?cur - 1))"
      using pb len nz cur tot by (intro populated_below_update [of w "?cur - 1" ?lap]) (simp_all add: eq)
    then have "populated_below ?w' ?tot"
      using cur(1) last by simp
    then show ?thesis
      using len tot cur last
      by (simp add: lap_invariant_def Let_def Workout_GetState_def) (simp add: eq)
  next
    case False
    with cur have lt: "?cur < ?tot" by simp
    note step = RecordLap_next(1) [OF True cur(1) lt tot(2), of now]
      RecordLap_next(2) [OF True cur(1) lt tot(2)]
    have "populated_below ?w' (Suc (?cur - 1))"
      using pb len nz cur tot lt
      by (intro populated_below_update [of w "?cur - 1" ?lap]) (simp_all add: step(1))
    then have "populated_below ?w' ?cur"
      using cur(1) by simp
    then show ?thesis
      using len tot cur lt step(2) True
      by (simp add: lap_invariant_def Let_def Workout_GetState_def) (simp add: step(1))
  qed
qed

lemma snd_run_op_RecordLap:
  "snd (run_op (OpRecordLap now) w) = snd (Workout_RecordLap now w)"
  by (cases "Workout_RecordLap now w"; cases "fst (Workout_RecordLap now w)") simp_all

lemma lap_invariant_run_op: "lap_invariant w \<Longrightarrow> lap_invariant (snd (run_op op w))"
proof (cases op)
  case (OpRecordLap now)
  assume "lap_invariant w"
  from lap_invariant_RecordLap [OF this, of now] OpRecordLap show ?thesis
    by (simp only: snd_run_op_RecordLap)
qed (simp_all add: lap_invariant_SetMode CycleMode_as_SetMode lap_invariant_Start
      lap_invariant_Pause lap_invariant_Stop lap_invariant_Reset lap_invariant_Init)

lemma lap_invariant_run_ops: "lap_invariant w \<Longrightarrow> lap_invariant (run_ops ops w)"
  by (induction ops arbitrary: w) (simp_all add: lap_invariant_run_op)

text \<open>
  The claim that all \<open>total_laps\<close> slots are populated once the session is Completed
  fails for a workout ended by \<^verbatim>\<open>Workout_Stop\<close>: after Start and Stop the four-lap
  session is Completed and slot 0 is unpopulated.
\<close>

theorem stopped_workout_counterexample:
  "Workout_GetState (run_ops [OpStart 0, OpStop] Workout_Init) = STATE_COMPLETED \<and>
   unat (total_laps (config (s_session (run_ops [OpStart 0, OpStop] Workout_Init)))) = 4 \<and>
   \<not> populated (run_ops [OpStart 0, OpStop] Workout_Init) 0"
  by (simp add: Workout_Init_def zero_session_def Workout_Start_def Workout_Stop_def
      Workout_GetState_def populated_def MAX_LAPS_def zero_lap_def)

lemma Stop_keeps_slots:
  assumes "lap_invariant w"
    and "Workout_GetState w = STATE_RUNNING \<or> Workout_GetState w = STATE_PAUSED"
  shows "Workout_GetState (snd (Workout_Stop w)) = STATE_COMPLETED \<and>
         current_lap (s_session (snd (Workout_Stop w))) = current_lap (s_session w) \<and>
         populated_below (snd (Workout_Stop w))
           (unat (current_lap (s_session (snd (Workout_Stop w)))) - 1)"
proof -
  have "laps (s_session (snd (Workout_Stop w))) = laps (s_session w)"
    using assms(2) by (auto simp add: Workout_Stop_def Workout_GetState_def)
  then have "populated_below (snd (Workout_Stop w)) (unat (current_lap (s_session w)) - 1)
               = populated_below w (unat (current_lap (s_session w)) - 1)"
    by (rule populated_below_laps)
  moreover have "populated_below w (unat (current_lap (s_session w)) - 1)"
    using assms by (auto simp add: lap_invariant_def Let_def Workout_GetState_def)
  ultimately show ?thesis
    using assms(2) by (auto simp add: Workout_Stop_def Workout_GetState_def)
qed

lemma completed_stays:
  assumes "Workout_GetState w = STATE_COMPLETED" and "op \<noteq> OpReset" and "op \<noteq> OpInit"
  shows "snd (run_op op w) = w"
  using assms
  by (cases op)
     (simp_all add: Workout_GetState_def Workout_SetMode_def Workout_CycleMode_def
        Workout_Start_def Workout_RecordLap_def Workout_Pause_def Workout_Stop_def)

text \<open>
  C8 (amended). In every state that calls of the lifecycle interface reach from boot:
  while Running or Paused \<open>current_lap\<close> is within \<open>1 .. total_laps\<close> and slot \<open>i\<close> of
  the lap array is populated exactly when \<open>i < current_lap - 1\<close>; once Completed,
  \<open>current_lap\<close> is still within \<open>1 .. total_laps\<close> and the populated slots are either
  those below \<open>current_lap - 1\<close> or all \<open>total_laps\<close> slots. Which of the two is decided
  by the call that completes the workout: the \<^verbatim>\<open>Workout_RecordLap\<close> that completes it
  leaves exactly the slots below \<open>total_laps\<close> populated, and a \<^verbatim>\<open>Workout_Stop\<close> from
  Running or Paused leaves \<open>current_lap\<close> as it was and exactly the slots below
  \<open>current_lap - 1\<close> populated; a Completed session then stays as it is under every call
  but Reset and Init. Every write of \<^verbatim>\<open>Workout_RecordLap\<close> to
  \<^verbatim>\<open>laps[current_lap - 1]\<close> is inside the \<open>MAX_LAPS\<close> elements.
\<close>

theorem lap_bookkeeping_invariant:
  "lap_invariant (run_ops ops Workout_Init) \<and>
   fst (Workout_RecordLap now (run_ops ops Workout_Init)) \<noteq> LapOutOfBounds \<and>
   (Workout_GetState (run_ops ops Workout_Init) = STATE_RUNNING \<and>
    Workout_GetState (snd (Workout_RecordLap now (run_ops ops Workout_Init))) = STATE_COMPLETED \<longrightarrow>
      populated_below (snd (Workout_RecordLap now (run_ops ops Workout_Init)))
        (unat (total_laps (config (s_session (run_ops ops Workout_Init)))))) \<and>
   (Workout_GetState (run_ops ops Workout_Init) = STATE_RUNNING \<or>
    Workout_GetState (run_ops ops Workout_Init) = STATE_PAUSED \<longrightarrow>
      Workout_GetState (snd (Workout_Stop (run_ops ops Workout_Init))) = STATE_COMPLETED \<and>
      current_lap (s_session (snd (Workout_Stop (run_ops ops Workout_Init))))
        = current_lap (s_session (run_ops ops Workout_Init)) \<and>
      populated_below (snd (Workout_Stop (run_ops ops Workout_Init)))
        (unat (current_lap (s_session (snd (Workout_Stop (run_ops ops Workout_Init))))) - 1)) \<and>
   (Workout_GetState (run_ops ops Workout_Init) = STATE_COMPLETED \<and>
    op \<noteq> OpReset \<and> op \<noteq> OpInit \<longrightarrow>
      snd (run_op op (run_ops ops Workout_Init)) = run_ops ops Workout_Init)"
proof -
  have inv: "lap_invariant (run_ops ops Workout_Init)"
    using lap_invariant_Init by (rule lap_invariant_run_ops)
  show ?thesis
    using inv lap_invariant_RecordLap [OF inv, of now] Stop_keeps_slots [OF inv]
      completed_stays [of "run_ops ops Workout_Init" op]
    by blast
qed

theorem lap_bookkeeping_invariant_witness:
  "Workout_GetState (run_ops [OpStart 0, OpRecordLap 1000] Workout_Init) = STATE_RUNNING \<and>
   unat (current_lap (s_session (run_ops [OpStart 0, OpRecordLap 1000] Workout_Init))) = 2 \<and>
   populated (run_ops [OpStart 0, OpRecordLap 1000] Workout_Init) 0 \<and>
   \<not> populated (run_ops [OpStart 0, OpRecordLap 1000] Workout_Init) 1 \<and>
   lap_invariant (run_ops [OpStart 0, OpRecordLap 1000] Workout_Init) \<and>
   fst (Workout_RecordLap 2500 (run_ops [OpStart 0, OpRecordLap 1000] Workout_Init))
     \<noteq> LapOutOfBounds \<and>
   Workout_GetState (snd (Workout_Stop (run_ops [OpStart 0, OpRecordLap 1000] Workout_Init)))
     = STATE_COMPLETED \<and>
   unat (current_lap (s_session
     (snd (Workout_Stop (run_ops [OpStart 0, OpRecordLap 1000] Workout_Init))))) = 2 \<and>
   populated_below (snd (Workout_Stop (run_ops [OpStart 0, OpRecordLap 1000] Workout_Init))) 1 \<and>
   populated (snd (Workout_Stop (run_ops [OpStart 0, OpRecordLap 1000] Workout_Init))) 0 \<and>
   \<not> populated (snd (Workout_Stop (run_ops [OpStart 0, OpRecordLap 1000] Workout_Init))) 1"
  using lap_bookkeeping_invariant [of "[OpStart 0, OpRecordLap 1000]" 2500 OpStop]
  by (simp add: Workout_Init_def zero_session_def Workout_Start_def Workout_RecordLap_def
      Workout_Stop_def Workout_GetState_def populated_def MAX_LAPS_def zero_lap_def Let_def
      word_le_nat_alt)

text \<open>
  In the one-lap mode a Stop while lap 1 is running completes the session with
  \<open>current_lap = total_laps = 1\<close> and slot 0 unpopulated: the slots of a stopped workout
  are those below \<open>current_lap - 1\<close> also when the counter stands at the last lap.
\<close>

lemma stopped_on_last_lap:
  "Workout_GetState (run_ops [OpSetMode MODE_1x4000M, OpStart 0, OpStop] Workout_Init)
     = STATE_COMPLETED \<and>
   current_lap (s_session (run_ops [OpSetMode MODE_1x4000M, OpStart 0, OpStop] Workout_Init))
     = total_laps (config (s_session
         (run_ops [OpSetMode MODE_1x4000M, OpStart 0, OpStop] Workout_Init))) \<and>
   \<not> populated (run_ops [OpSetMode MODE_1x4000M, OpStart 0, OpStop] Workout_Init) 0"
  by (simp add: Workout_Init_def zero_session_def Workout_SetMode_def Workout_Start_def
      Workout_Stop_def Workout_GetState_def populated_def MAX_LAPS_def zero_lap_def)

section \<open>A whole workout, lap by lap\<close>

text \<open>
  Without the bound on the duration the split times can decrease: in the two-lap mode,
  started at uptime 0, laps at uptimes 4294967295 and 4294967296 get the splits
  4294967295 and 0.
\<close>

theorem splits_wrap_counterexample:
  "Workout_GetState two_lap_workout = STATE_IDLE \<and>
   unat (total_laps (config (s_session two_lap_workout))) = 2 \<and>
   sorted [0, 4294967295, 4294967296 :: nat] \<and>
   Workout_GetState
     (snd (record_laps (map Time_GetMs [4294967295, 4294967296])
        (snd (Workout_Start (Time_GetMs 0) two_lap_workout)))) = STATE_COMPLETED \<and>
   lap_splits
     (fst (record_laps (map Time_GetMs [4294967295, 4294967296])
        (snd (Workout_Start (Time_GetMs 0) two_lap_workout)))) = [4294967295, 0] \<and>
   \<not> sorted (lap_splits
     (fst (record_laps (map Time_GetMs [4294967295, 4294967296])
        (snd (Workout_Start (Time_GetMs 0) two_lap_workout)))))"
  by (simp add: two_lap_workout_def Workout_SetMode_def Workout_Init_def zero_session_def
      Workout_Start_def Workout_RecordLap_def Workout_GetState_def Time_GetMs_def Let_def
      MAX_LAPS_def lap_splits_def List.map_filter_simps record_laps_unfold word_le_nat_alt
      del: record_laps.simps(2))

text \<open>
  C5 (amended). From every Idle session that calls of the lifecycle interface reach from
  boot, \<^verbatim>\<open>Workout_Start\<close> at uptime \<open>T0\<close> followed by exactly \<open>total_laps\<close> calls of
  \<^verbatim>\<open>Workout_RecordLap\<close> at the uptimes \<open>Ts\<close> records a lap at every call and leaves the
  session Completed. When the uptimes do not decrease and every lap is recorded less than
  \<open>2 ^ 32\<close> ms after the start, the split times of the recorded laps do not decrease.
\<close>

theorem laps_complete_splits_sorted:
  assumes "Workout_GetState (run_ops ops Workout_Init) = STATE_IDLE"
    and "length Ts = unat (total_laps (config (s_session (run_ops ops Workout_Init))))"
  shows "Workout_GetState
           (snd (record_laps (map Time_GetMs Ts)
              (snd (Workout_Start (Time_GetMs T0) (run_ops ops Workout_Init)))))
           = STATE_COMPLETED \<and>
         list_all (\<lambda>r. recorded r \<noteq> None)
           (fst (record_laps (map Time_GetMs Ts)
              (snd (Workout_Start (Time_GetMs T0) (run_ops ops Workout_Init))))) \<and>
         length (lap_splits
           (fst (record_laps (map Time_GetMs Ts)
              (snd (Workout_Start (Time_GetMs T0) (run_ops ops Workout_Init))))))
           = unat (total_laps (config (s_session (run_ops ops Workout_Init)))) \<and>
         (sorted (T0 # Ts) \<and> (\<forall>T \<in> set Ts. T - T0 < 2 ^ 32) \<longrightarrow>
            sorted (lap_splits
              (fst (record_laps (map Time_GetMs Ts)
                 (snd (Workout_Start (Time_GetMs T0) (run_ops ops Workout_Init)))))))"
proof -
  have "lap_invariant (run_ops ops Workout_Init)"
    using lap_invariant_Init by (rule lap_invariant_run_ops)
  then have "1 \<le> unat (total_laps (config (s_session (run_ops ops Workout_Init))))"
    and "unat (total_laps (config (s_session (run_ops ops Workout_Init)))) \<le> MAX_LAPS"
    by (simp_all add: lap_invariant_def Let_def)
  with assms show ?thesis
    by (intro record_all_laps)
qed

theorem laps_complete_splits_sorted_witness:
  "Workout_GetState (run_ops [] Workout_Init) = STATE_IDLE \<and>
   length [1000, 2500, 4000, 5200 :: nat]
     = unat (total_laps (config (s_session (run_ops [] Workout_Init)))) \<and>
   sorted (0 # [1000, 2500, 4000, 5200 :: nat]) \<and>
   (1000::nat) - 0 < 2 ^ 32 \<and> (2500::nat) - 0 < 2 ^ 32 \<and> (4000::nat) - 0 < 2 ^ 32 \<and>
   (5200::nat) - 0 < 2 ^ 32 \<and>
   Workout_GetState
     (snd (record_laps (map Time_GetMs [1000, 2500, 4000, 5200])
        (snd (Workout_Start (Time_GetMs 0) (run_ops [] Workout_Init))))) = STATE_COMPLETED \<and>
   lap_splits
     (fst (record_laps (map Time_GetMs [1000, 2500, 4000, 5200])
        (snd (Workout_Start (Time_GetMs 0) (run_ops [] Workout_Init)))))
     = [1000, 2500, 4000, 5200] \<and>
   map lap_time_ms (List.map_filter recorded
     (fst (record_laps (map Time_GetMs [1000, 2500, 4000, 5200])
        (snd (Workout_Start (Time_GetMs 0) (run_ops [] Workout_Init))))))
     = [1000, 1500, 1500, 1200]"
  using laps_complete_splits_sorted [of "[]" "[1000, 2500, 4000, 5200]" 0]
  by (simp add: Workout_Init_def zero_session_def
      Workout_Start_def Workout_RecordLap_def Workout_GetState_def Time_GetMs_def Let_def
      MAX_LAPS_def lap_splits_def List.map_filter_simps record_laps_unfold word_le_nat_alt
      del: record_laps.simps(2))

section \<open>The offline buffer keeps the newest events in order\<close>

lemma ring_ok_Init: "ring_ok Buffer_Init" and stored_Init: "stored Buffer_Init = []"
  by (simp_all add: ring_ok_def stored_def Buffer_Init_def BUFFER_MAX_EVENTS_def)

lemma ring_ok_Push: "ring_ok b \<Longrightarrow> ring_ok (snd (Buffer_Push e b))"
  unfolding ring_ok_def Buffer_Push_def BUFFER_MAX_EVENTS_def Let_def
  by (auto simp: mod_simps)

lemma slot_distinct:
  assumes "i < c" "c \<le> 16" "c < 16 \<or> 0 < i"
  shows "(t + i) mod 16 \<noteq> (t + c) mod (16::nat)"
proof
  assume "(t + i) mod 16 = (t + c) mod 16"
  then have "(t + c) mod 16 = (t + i) mod 16" by simp
  moreover have "t + i \<le> t + c" using assms by simp
  ultimately have "16 dvd (t + c) - (t + i)"
    by (simp add: mod_eq_dvd_iff_nat)
  then have "16 dvd c - i" by simp
  moreover have "0 < c - i" "c - i < 16" using assms by auto
  ultimately show False by (auto dest: dvd_imp_le)
qed

lemma stored_Push_room:
  assumes "ring_ok b" "s_count b < BUFFER_MAX_EVENTS"
  shows "stored (snd (Buffer_Push e b)) = stored b @ [e]"
proof (rule nth_equalityI)
  show "length (stored (snd (Buffer_Push e b))) = length (stored b @ [e])"
    using assms by (simp add: stored_def Buffer_Push_def Let_def)
next
  fix i assume "i < length (stored (snd (Buffer_Push e b)))"
  then have i: "i \<le> s_count b"
    using assms by (simp add: stored_def Buffer_Push_def Let_def)
  show "stored (snd (Buffer_Push e b)) ! i = (stored b @ [e]) ! i"
  proof (cases "i = s_count b")
    case True
    then show ?thesis
      using assms
      by (simp add: stored_def Buffer_Push_def Let_def ring_ok_def nth_append
          BUFFER_MAX_EVENTS_def del: upt_Suc)
  next
    case False
    with i have lt: "i < s_count b" by simp
    then have "(s_tail b + i) mod 16 \<noteq> (s_tail b + s_count b) mod 16"
      using assms by (intro slot_distinct) (simp_all add: BUFFER_MAX_EVENTS_def ring_ok_def)
    then show ?thesis
      using assms lt
      by (simp add: stored_def Buffer_Push_def Let_def ring_ok_def nth_append
          BUFFER_MAX_EVENTS_def del: upt_Suc)
  qed
qed

lemma Push_full_fields:
  assumes "ring_ok b" "s_count b = BUFFER_MAX_EVENTS"
  shows "s_tail (snd (Buffer_Push e b)) = Suc (s_tail b) mod 16"
    and "s_count (snd (Buffer_Push e b)) = 16"
    and "s_buffer (snd (Buffer_Push e b)) = (s_buffer b)[s_tail b := e]"
  using assms by (simp_all add: Buffer_Push_def Let_def ring_ok_def BUFFER_MAX_EVENTS_def)

lemma stored_nth:
  "i < s_count b \<Longrightarrow> stored b ! i = s_buffer b ! ((s_tail b + i) mod BUFFER_MAX_EVENTS)"
  by (simp add: stored_def del: upt_Suc)

lemma length_stored: "length (stored b) = s_count b"
  by (simp add: stored_def)

lemma stored_Push_full:
  assumes "ring_ok b" "s_count b = BUFFER_MAX_EVENTS"
  shows "stored (snd (Buffer_Push e b)) = tl (stored b) @ [e]"
proof (rule nth_equalityI)
  show "length (stored (snd (Buffer_Push e b))) = length (tl (stored b) @ [e])"
    using assms by (simp add: length_stored Push_full_fields BUFFER_MAX_EVENTS_def)
next
  fix i assume "i < length (stored (snd (Buffer_Push e b)))"
  then have i: "i < 16"
    using assms by (simp add: length_stored Push_full_fields)
  have t: "s_tail b < 16" and len: "length (s_buffer b) = 16" and c: "s_count b = 16"
    using assms by (simp_all add: ring_ok_def BUFFER_MAX_EVENTS_def)
  have lhs: "stored (snd (Buffer_Push e b)) ! i =
             (s_buffer b)[s_tail b := e] ! ((Suc (s_tail b) mod 16 + i) mod 16)"
    using i assms by (simp add: stored_nth Push_full_fields BUFFER_MAX_EVENTS_def)
  show "stored (snd (Buffer_Push e b)) ! i = (tl (stored b) @ [e]) ! i"
  proof (cases "i = 15")
    case True
    have "(Suc (s_tail b) mod 16 + 15) mod 16 = (s_tail b + 16) mod 16"
      by (simp add: mod_simps)
    then have "(Suc (s_tail b) mod 16 + 15) mod 16 = s_tail b"
      using t by simp
    with True lhs t len have "stored (snd (Buffer_Push e b)) ! i = e"
      by simp
    moreover have "(tl (stored b) @ [e]) ! i = e"
      using True c by (simp add: nth_append length_stored)
    ultimately show ?thesis by simp
  next
    case False
    with i have lt: "i < 15" by simp
    have a: "(Suc (s_tail b) mod 16 + i) mod 16 = (s_tail b + Suc i) mod 16"
      by (simp add: mod_simps)
    have "(s_tail b + 0) mod 16 \<noteq> (s_tail b + Suc i) mod 16"
      using lt by (intro slot_distinct) simp_all
    then have b: "(s_tail b + Suc i) mod 16 \<noteq> s_tail b"
      using t by simp
    have "stored (snd (Buffer_Push e b)) ! i = s_buffer b ! ((s_tail b + Suc i) mod 16)"
      unfolding lhs a using b by (simp only: nth_list_update_neq not_sym)
    moreover have "(tl (stored b) @ [e]) ! i = stored b ! Suc i"
      using lt c by (simp add: nth_append length_stored nth_tl)
    moreover have "stored b ! Suc i = s_buffer b ! ((s_tail b + Suc i) mod 16)"
      using lt c stored_nth [of "Suc i" b] by (simp add: BUFFER_MAX_EVENTS_def)
    ultimately show ?thesis by simp
  qed
qed


lemma Pop_empty: "s_count b = 0 \<Longrightarrow> Buffer_Pop b = (None, b)"
  by (simp add: Buffer_Pop_def)

lemma Pop_fields:
  assumes "0 < s_count b"
  shows "fst (Buffer_Pop b) = Some (s_buffer b ! s_tail b)"
    and "s_tail (snd (Buffer_Pop b)) = Suc (s_tail b) mod 16"
    and "s_count (snd (Buffer_Pop b)) = s_count b - 1"
    and "s_buffer (snd (Buffer_Pop b)) = s_buffer b"
    and "s_head (snd (Buffer_Pop b)) = s_head b"
  using assms by (simp_all add: Buffer_Pop_def BUFFER_MAX_EVENTS_def)

lemma ring_ok_Pop:
  assumes "ring_ok b" "0 < s_count b"
  shows "ring_ok (snd (Buffer_Pop b))"
proof -
  obtain c where c: "s_count b = Suc c"
    using assms(2) by (cases "s_count b") simp_all
  have "(Suc (s_tail b) mod 16 + c) mod 16 = (s_tail b + Suc c) mod 16"
    by (simp add: mod_simps)
  with c have "(Suc (s_tail b) mod 16 + (s_count b - 1)) mod 16 = (s_tail b + s_count b) mod 16"
    by simp
  moreover have "s_count b - 1 \<le> 16"
    using assms(1) unfolding ring_ok_def BUFFER_MAX_EVENTS_def by linarith
  ultimately show ?thesis
    using assms by (simp add: ring_ok_def Pop_fields BUFFER_MAX_EVENTS_def)
qed

lemma stored_Pop:
  assumes "ring_ok b" "0 < s_count b"
  shows "stored (snd (Buffer_Pop b)) = tl (stored b)"
proof (rule nth_equalityI)
  show "length (stored (snd (Buffer_Pop b))) = length (tl (stored b))"
    using assms by (simp add: length_stored Pop_fields)
next
  fix i assume "i < length (stored (snd (Buffer_Pop b)))"
  then have i: "Suc i < s_count b"
    using assms by (simp add: length_stored Pop_fields)
  have a: "(Suc (s_tail b) mod 16 + i) mod 16 = (s_tail b + Suc i) mod 16"
    by (simp add: mod_simps)
  have "stored (snd (Buffer_Pop b)) ! i = s_buffer b ! ((s_tail b + Suc i) mod 16)"
    using i assms a by (simp add: stored_nth Pop_fields BUFFER_MAX_EVENTS_def)
  moreover have "tl (stored b) ! i = s_buffer b ! ((s_tail b + Suc i) mod 16)"
    using i stored_nth [of "Suc i" b] by (simp add: nth_tl length_stored BUFFER_MAX_EVENTS_def)
  ultimately show "stored (snd (Buffer_Pop b)) ! i = tl (stored b) ! i"
    by simp
qed

lemma fst_Pop_hd:
  assumes "ring_ok b" "0 < s_count b"
  shows "fst (Buffer_Pop b) = Some (hd (stored b))"
proof -
  have "stored b \<noteq> []"
    using assms(2) length_stored [of b] by auto
  then have "hd (stored b) = stored b ! 0"
    by (simp add: hd_conv_nth)
  also have "\<dots> = s_buffer b ! s_tail b"
    using assms by (simp add: stored_nth ring_ok_def BUFFER_MAX_EVENTS_def)
  finally show ?thesis
    using assms(2) by (simp add: Pop_fields)
qed

lemma pop_all_stored: "ring_ok b \<Longrightarrow> pop_all b = stored b"
proof (induction "s_count b" arbitrary: b)
  case 0
  then have "stored b = []"
    using length_stored [of b] by simp
  with 0 show ?case
    by (simp add: pop_all.simps [of b] Pop_empty)
next
  case (Suc n)
  then have pos: "0 < s_count b" by simp
  obtain r b' where pop: "Buffer_Pop b = (r, b')" by (cases "Buffer_Pop b")
  have r: "r = Some (hd (stored b))"
    using fst_Pop_hd [OF Suc.prems pos] pop by simp
  have ok: "ring_ok b'" and st: "stored b' = tl (stored b)" and cnt: "n = s_count b'"
    using ring_ok_Pop [OF Suc.prems pos] stored_Pop [OF Suc.prems pos] Pop_fields(3) [OF pos]
      pop Suc.hyps(2) by simp_all
  have ne: "stored b \<noteq> []"
    using pos length_stored [of b] by auto
  have "pop_all b = hd (stored b) # pop_all b'"
    using pop r by (simp add: pop_all.simps [of b])
  also have "pop_all b' = stored b'"
    using Suc.hyps(1) [OF cnt ok] .
  finally show ?case
    using st ne by simp
qed

lemma stored_Push:
  assumes "ring_ok b"
  shows "stored (snd (Buffer_Push e b)) = newest (stored b @ [e])"
proof (cases "s_count b = BUFFER_MAX_EVENTS")
  case True
  then have "length (stored b) = 16"
    by (simp add: length_stored BUFFER_MAX_EVENTS_def)
  then have "newest (stored b @ [e]) = tl (stored b) @ [e]"
    by (cases "stored b") (simp_all add: newest_def BUFFER_MAX_EVENTS_def)
  with stored_Push_full [OF assms True] show ?thesis by simp
next
  case False
  with assms have lt: "s_count b < BUFFER_MAX_EVENTS"
    by (simp add: ring_ok_def)
  then have "newest (stored b @ [e]) = stored b @ [e]"
    by (simp add: newest_def length_stored)
  with stored_Push_room [OF assms lt] show ?thesis by simp
qed

lemma newest_newest_append: "newest (newest xs @ ys) = newest (xs @ ys)"
proof -
  have "length xs + length ys - (length xs - BUFFER_MAX_EVENTS + BUFFER_MAX_EVENTS)
          + (length xs - BUFFER_MAX_EVENTS) = length xs + length ys - BUFFER_MAX_EVENTS"
    by arith
  then show ?thesis
    by (simp add: newest_def)
qed

lemma push_all_stored:
  "ring_ok b \<Longrightarrow> ring_ok (push_all es b) \<and> stored (push_all es b) = newest (stored b @ es)"
proof (induction es arbitrary: b)
  case Nil
  then show ?case
    by (simp add: newest_def length_stored ring_ok_def)
next
  case (Cons e es)
  have ok: "ring_ok (snd (Buffer_Push e b))"
    using Cons.prems by (rule ring_ok_Push)
  have "stored (push_all (e # es) b) = newest (newest (stored b @ [e]) @ es)"
    using Cons.IH [OF ok] stored_Push [OF Cons.prems] by simp
  also have "\<dots> = newest (stored b @ e # es)"
    by (simp add: newest_newest_append)
  finally show ?case
    using Cons.IH [OF ok] by simp
qed

lemma count_push_all_full:
  assumes "BUFFER_MAX_EVENTS \<le> length es"
  shows "Buffer_GetCount (push_all es Buffer_Init) = BUFFER_MAX_EVENTS"
proof -
  have "length (stored (push_all es Buffer_Init)) = BUFFER_MAX_EVENTS"
    using push_all_stored [OF ring_ok_Init, of es] assms
    by (simp add: stored_Init newest_def)
  then show ?thesis
    by (simp add: length_stored Buffer_GetCount_def)
qed

text \<open>
  C7. For the buffer of capacity 16 and every \<open>k > 0\<close>: after pushing \<open>16 + k\<close> events
  into the initialised buffer it holds 16 events, and popping until the buffer reports
  empty returns exactly the last 16 events pushed, in the order they were pushed; the
  first \<open>k\<close> events are gone. With 17 events the pops return events 2 to 17.
\<close>

theorem overflow_keeps_newest_in_order:
  assumes "0 < k" and "length es = BUFFER_MAX_EVENTS + k"
  shows "Buffer_GetCount (push_all es Buffer_Init) = BUFFER_MAX_EVENTS \<and>
         pop_all (push_all es Buffer_Init) = drop k es"
proof
  show "Buffer_GetCount (push_all es Buffer_Init) = BUFFER_MAX_EVENTS"
    using assms by (simp add: count_push_all_full)
  show "pop_all (push_all es Buffer_Init) = drop k es"
    using push_all_stored [OF ring_ok_Init, of es] assms
    by (simp add: pop_all_stored stored_Init newest_def)
qed

theorem overflow_keeps_newest_in_order_witness:
  "0 < (1::nat) \<and>
   length [ev 1, ev 2, ev 3, ev 4, ev 5, ev 6, ev 7, ev 8, ev 9, ev 10, ev 11, ev 12, ev 13,
           ev 14, ev 15, ev 16, ev 17] = BUFFER_MAX_EVENTS + 1 \<and>
   Buffer_GetCount
     (push_all [ev 1, ev 2, ev 3, ev 4, ev 5, ev 6, ev 7, ev 8, ev 9, ev 10, ev 11, ev 12,
                ev 13, ev 14, ev 15, ev 16, ev 17] Buffer_Init) = BUFFER_MAX_EVENTS \<and>
   pop_all
     (push_all [ev 1, ev 2, ev 3, ev 4, ev 5, ev 6, ev 7, ev 8, ev 9, ev 10, ev 11, ev 12,
                ev 13, ev 14, ev 15, ev 16, ev 17] Buffer_Init) =
     [ev 2, ev 3, ev 4, ev 5, ev 6, ev 7, ev 8, ev 9, ev 10, ev 11, ev 12, ev 13, ev 14,
      ev 15, ev 16, ev 17]"
  using overflow_keeps_newest_in_order
    [of 1 "[ev 1, ev 2, ev 3, ev 4, ev 5, ev 6, ev 7, ev 8, ev 9, ev 10, ev 11, ev 12,
            ev 13, ev 14, ev 15, ev 16, ev 17]"]
  by (simp add: BUFFER_MAX_EVENTS_def)

section \<open>The codec writes the wire records of the specification\<close>

lemma digit_cases: "d < 10 \<Longrightarrow> d \<in> {0, 1, 2, 3, 4, 5, 6, 7, 8, 9::nat}"
  by auto

lemma digit_char_props:
  assumes "d < 10"
  shows "is_digit (digit_char d)" and "digit_value (digit_char d) = d"
    and "digit_char d = CHR ''0'' \<longleftrightarrow> d = 0"
  using digit_cases [OF assms]
  by (auto simp: digit_char_def is_digit_def digit_value_def)

lemma dec_small: "n < 10 \<Longrightarrow> dec n = [digit_char n]"
  by (simp add: dec.simps)

lemma dec_large: "\<not> n < 10 \<Longrightarrow> dec n = dec (n div 10) @ [digit_char (n mod 10)]"
  by (subst dec.simps) simp

lemma dec_not_Nil: "dec n \<noteq> []"
  by (cases "n < 10") (simp_all add: dec_small dec_large)

lemma dec_digits: "list_all is_digit (dec n)"
proof (induction n rule: dec.induct)
  case (1 n)
  then show ?case
    by (cases "n < 10") (simp_all add: dec_small dec_large digit_char_props)
qed

lemma base10_value_snoc: "base10_value (s @ [c]) = 10 * base10_value s + digit_value c"
  by (simp add: base10_value_def)

lemma dec_value: "base10_value (dec n) = n"
proof (induction n rule: dec.induct)
  case (1 n)
  show ?case
  proof (cases "n < 10")
    case True
    then show ?thesis
      by (simp add: dec_small base10_value_def digit_char_props)
  next
    case False
    with 1 show ?thesis
      by (simp add: dec_large base10_value_snoc digit_char_props)
  qed
qed

lemma dec_leading: "hd (dec n) = CHR ''0'' \<Longrightarrow> n = 0"
proof (induction n rule: dec.induct)
  case (1 n)
  show ?case
  proof (cases "n < 10")
    case True
    with 1(2) show ?thesis
      by (simp add: dec_small digit_char_props)
  next
    case False
    then have "hd (dec n) = hd (dec (n div 10))"
      by (simp add: dec_large dec_not_Nil)
    with 1 False have "n div 10 = 0" by simp
    with False show ?thesis by simp
  qed
qed

lemma dec_base10: "base10 (dec n) n"
  unfolding base10_def
  using dec_leading [of n]
  by (auto simp: dec_not_Nil dec_digits dec_value dec_small)

lemma length_dec: "0 < k \<Longrightarrow> n < 10 ^ k \<Longrightarrow> length (dec n) \<le> k"
proof (induction k arbitrary: n)
  case 0
  then show ?case by simp
next
  case (Suc k)
  show ?case
  proof (cases "n < 10")
    case True
    then show ?thesis by (simp add: dec_small)
  next
    case False
    then have k: "0 < k"
      using Suc.prems by (cases k) simp_all
    have "n div 10 < 10 ^ k"
      using Suc.prems by (simp add: less_mult_imp_div_less mult.commute)
    then have "length (dec (n div 10)) \<le> k"
      using Suc.IH k by simp
    with False show ?thesis
      by (simp add: dec_large)
  qed
qed

lemma length_dec_u32: "length (dec (unat (v :: u32))) \<le> 10"
proof -
  have "unat v < 2 ^ 32" using unsigned_less [of v] by simp
  then have "unat v < 10 ^ 10" by simp
  then show ?thesis by (intro length_dec) simp_all
qed

lemma length_dec_u8: "length (dec (unat (v :: u8))) \<le> 3"
proof -
  have "unat v < 2 ^ 8" using unsigned_less [of v] by simp
  then have "unat v < 10 ^ 3" by simp
  then show ?thesis by (intro length_dec) simp_all
qed

lemma length_mode_name: "length (Workout_ModeToString m) \<le> 7"
  by (cases m) simp_all

lemma length_state_name: "length (Workout_StateToString st) \<le> 9"
  by (cases st) simp_all

lemma mode_name_wire: "Workout_ModeToString m = wire_mode_name m"
  by (cases m) simp_all

lemma state_name_wire: "Workout_StateToString st = wire_state_name st"
  by (cases st) simp_all

lemma dec_int_uint: "dec_int (uint v) = dec (unat v)"
  by (simp add: dec_int_def)

lemma printf_Start:
  \<open>printf_text ''{"event":"start","mode":"%s","laps":%d,"ts":%lu}'' [Arg_s m, Arg_d i, Arg_lu v]
     = Some (wire_Start m (dec_int i) (dec (unat v)))\<close>
  by (simp add: wire_Start_def)

lemma printf_Lap:
  \<open>printf_text ''{"event":"lap","lap":%d,"lap_ms":%lu,"split_ms":%lu,"ts":%lu}''
       [Arg_d i, Arg_lu a, Arg_lu b, Arg_lu c]
     = Some (wire_LapComplete (dec_int i) (dec (unat a)) (dec (unat b)) (dec (unat c)))\<close>
  by (simp add: wire_LapComplete_def)


lemma printf_Stop:
  \<open>printf_text ''{"event":"stop","laps":%d,"total_ms":%lu,"ts":%lu}'' [Arg_d i, Arg_lu a, Arg_lu b]
     = Some (wire_Stop (dec_int i) (dec (unat a)) (dec (unat b)))\<close>
  by (simp add: wire_Stop_def)

lemma printf_Done:
  \<open>printf_text ''{"event":"done","laps":%d,"total_ms":%lu,"ts":%lu}'' [Arg_d i, Arg_lu a, Arg_lu b]
     = Some (wire_Done (dec_int i) (dec (unat a)) (dec (unat b)))\<close>
  by (simp add: wire_Done_def)

lemma printf_Status:
  \<open>printf_text ''{"event":"status","state":"%s","lap":%d,"elapsed_ms":%lu}''
       [Arg_s m, Arg_d i, Arg_lu a]
     = Some (wire_StatusUpdate m (dec_int i) (dec (unat a)))\<close>
  by (simp add: wire_StatusUpdate_def)

lemma length_wire_record: "length (wire_record e w t1 t2) \<le> 83"
proof (cases "event_type e")
  case EVENT_WORKOUT_START
  then show ?thesis
    using length_mode_name [of "mode (config (s_session w))"]
      length_dec_u8 [of "total_laps (config (s_session w))"] length_dec_u32 [of "timestamp_ms e"]
    by (simp add: wire_record_def wire_Start_def mode_name_wire)
next
  case EVENT_WORKOUT_STOP
  then show ?thesis
    using length_dec_u8 [of "event_current_lap e"] length_dec_u32 [of "timestamp_ms e"]
      length_dec_u32 [of "timestamp_ms e - workout_start_ms (s_session w)"]
    by (simp add: wire_record_def wire_Stop_def)
next
  case EVENT_LAP_COMPLETE
  then show ?thesis
    using length_dec_u8 [of "lap_number (lap_data e)"] length_dec_u32 [of "timestamp_ms e"]
      length_dec_u32 [of "lap_time_ms (lap_data e)"] length_dec_u32 [of "split_time_ms (lap_data e)"]
    by (simp add: wire_record_def wire_LapComplete_def)
next
  case EVENT_WORKOUT_DONE
  then show ?thesis
    using length_dec_u8 [of "total_laps (config (s_session w))"] length_dec_u32 [of "timestamp_ms e"]
      length_dec_u32 [of "split_time_ms (lap_data e)"]
    by (simp add: wire_record_def wire_Done_def)
next
  case EVENT_STATUS_UPDATE
  then show ?thesis
    using length_state_name [of "state (s_session w)"]
      length_dec_u8 [of "event_current_lap e"] length_dec_u32 [of "Workout_GetElapsedMs t1 t2 w"]
    by (simp add: wire_record_def wire_StatusUpdate_def state_name_wire)
qed

lemma printf_event:
  "Protocol_SerializeEvent e bufLen w t1 t2 =
     (if bufLen < 50 \<or> bufLen \<le> length (wire_record e w t1 t2) then None
      else Some (wire_record e w t1 t2))"
  by (cases "event_type e")
     (simp_all add: Protocol_SerializeEvent_def wire_record_def Let_def printf_Start printf_Lap
        printf_Stop printf_Done printf_Status dec_int_uint mode_name_wire state_name_wire
      del: printf_text.simps)

text \<open>
  C9. With a buffer of at least \<open>PROTOCOL_MAX_MSG_LEN\<close> bytes, the capacity every caller
  passes, \<^verbatim>\<open>Protocol_SerializeEvent\<close> returns for every event, whatever the session and
  the clock, exactly the wire record of its kind: the field names, their order and the
  literal text of section 6. Every numeric field is the unpadded base-10 numeral of a
  natural number. A lap event gives the \<open>lap\<close> record with its four numbers, and the
  \<open>total_ms\<close> of a done event is the split time of the lap the event carries.
\<close>

theorem serialize_is_wire_record:
  "PROTOCOL_MAX_MSG_LEN \<le> bufLen \<Longrightarrow>
     Protocol_SerializeEvent e bufLen w t1 t2 = Some (wire_record e w t1 t2) \<and>
     (\<forall>n. base10 (dec n) n)"
  using length_wire_record [of e w t1 t2]
  by (simp add: printf_event PROTOCOL_MAX_MSG_LEN_def dec_base10)

theorem serialize_is_wire_record_witness:
  \<open>PROTOCOL_MAX_MSG_LEN \<le> 128 \<and>
   Protocol_SerializeEvent lap_event 128 Workout_Init 0 0 =
     Some ''{"event":"lap","lap":2,"lap_ms":1500,"split_ms":2500,"ts":2500}''\<close>
  using serialize_is_wire_record [of 128 lap_event Workout_Init 0 0]
  by (simp add: PROTOCOL_MAX_MSG_LEN_def wire_record_def lap_event_def wire_LapComplete_def
      dec.simps digit_char_def)

section \<open>What the codec reads besides its argument\<close>

text \<open>
  The claim that the record depends on the event and the capacity alone fails: the same
  start event serialises differently under two sessions that differ in their mode.
\<close>

theorem serialize_reads_session_counterexample:
  "Protocol_SerializeEvent start_event 128 Workout_Init 0 0 \<noteq>
   Protocol_SerializeEvent start_event 128 (snd (Workout_SetMode MODE_5x1000M Workout_Init)) 0 0"
  by (simp add: printf_event wire_record_def start_event_def wire_Start_def Workout_Init_def
      Workout_SetMode_def zero_session_def dec.simps digit_char_def)

text \<open>
  C10 (amended). \<^verbatim>\<open>Protocol_SerializeEvent\<close> changes no program state, and its record is
  determined by the event, the capacity and what it reads of the global session: the
  configuration, the lifecycle state, the workout start time and the elapsed time. Two
  calls that agree on these give the same record; for a lap event the record is
  determined by the event and the capacity alone.
\<close>

theorem serialize_determined_by_reads:
  assumes "event_type e = EVENT_LAP_COMPLETE \<or>
           config (s_session w) = config (s_session w') \<and>
           state (s_session w) = state (s_session w') \<and>
           workout_start_ms (s_session w) = workout_start_ms (s_session w') \<and>
           Workout_GetElapsedMs t1 t2 w = Workout_GetElapsedMs t1' t2' w'"
  shows "Protocol_SerializeEvent e bufLen w t1 t2 = Protocol_SerializeEvent e bufLen w' t1' t2'"
proof -
  have "wire_record e w t1 t2 = wire_record e w' t1' t2'"
    using assms by (cases "event_type e") (auto simp: wire_record_def)
  then show ?thesis
    by (simp add: printf_event)
qed

theorem serialize_determined_by_reads_witness:
  "(event_type lap_event = EVENT_LAP_COMPLETE \<or>
      config (s_session Workout_Init)
        = config (s_session (snd (Workout_SetMode MODE_5x1000M Workout_Init))) \<and>
      state (s_session Workout_Init)
        = state (s_session (snd (Workout_SetMode MODE_5x1000M Workout_Init))) \<and>
      workout_start_ms (s_session Workout_Init)
        = workout_start_ms (s_session (snd (Workout_SetMode MODE_5x1000M Workout_Init))) \<and>
      Workout_GetElapsedMs 0 0 Workout_Init
        = Workout_GetElapsedMs 7 7 (snd (Workout_SetMode MODE_5x1000M Workout_Init))) \<and>
   Protocol_SerializeEvent lap_event 128 Workout_Init 0 0 =
   Protocol_SerializeEvent lap_event 128 (snd (Workout_SetMode MODE_5x1000M Workout_Init)) 7 7"
  using serialize_determined_by_reads
    [of lap_event Workout_Init "snd (Workout_SetMode MODE_5x1000M Workout_Init)" 0 0 7 7 128]
  by (simp add: lap_event_def)

section \<open>The bounded wait for the heart-rate confirmation\<close>

lemma running_coordinator_eq:
  "running_coordinator =
     \<lparr>workout = snd (Workout_Start 0 Workout_Init), s_currentState = CTRL_STATE_RUNNING,
      s_hrWait_startMs = 0, s_hrWait_active = False, g_eventQueue = []\<rparr>"
  by (simp add: running_coordinator_def handleButtonEvent_def ControlTask_Init_def
      Workout_Start_def Workout_Init_def zero_session_def)

lemma hr_wait_entered_eq:
  "hr_wait_entered =
     \<lparr>workout = snd (Workout_Pause 1000 (snd (Workout_Start 0 Workout_Init))),
      s_currentState = CTRL_STATE_HR_MEASUREMENT,
      s_hrWait_startMs = 1000, s_hrWait_active = True, g_eventQueue = []\<rparr>"
  by (simp add: hr_wait_entered_def running_coordinator_eq handleButtonEvent_def
      enterHrWaitState_def)

lemma hr_wait_entered_paused:
  "Workout_GetState (workout hr_wait_entered) = STATE_PAUSED"
  by (simp add: hr_wait_entered_eq Workout_GetState_def Workout_Pause_def Workout_Start_def
      Workout_Init_def zero_session_def)

lemma hr_wait_entered_fields:
  "s_currentState hr_wait_entered = CTRL_STATE_HR_MEASUREMENT"
  "s_hrWait_active hr_wait_entered"
  "s_hrWait_startMs hr_wait_entered = 1000"
  "g_eventQueue hr_wait_entered = []"
  by (simp_all add: hr_wait_entered_eq)

lemma exit_when_paused:
  assumes "Workout_GetState (workout c) = STATE_PAUSED"
  shows "exitHrWaitState confirmed now c =
           c\<lparr>s_hrWait_active := False, workout := snd (Workout_Start now (workout c)),
             s_currentState := CTRL_STATE_RUNNING\<rparr>"
  using assms
  by (simp add: exitHrWaitState_def Workout_RecordLap_def Workout_GetState_def Let_def)

lemma Start_when_paused:
  assumes "Workout_GetState w = STATE_PAUSED"
  shows "snd (Workout_Start now w) =
           w\<lparr>s_session := (s_session w)\<lparr>state := STATE_RUNNING\<rparr>,
             s_totalPausedMs := s_totalPausedMs w + (now - s_pauseStartMs w)\<rparr>"
  using assms by (simp add: Workout_Start_def Workout_GetState_def)

text \<open>
  C1. The claim is that every exit from HR wait puts exactly one lap or done event into the
  transmission queue. The code does not: \<^verbatim>\<open>enterHrWaitState\<close> has paused the lifecycle, so
  the \<^verbatim>\<open>Workout_RecordLap\<close> of \<^verbatim>\<open>exitHrWaitState\<close> fails and no event is built. After the
  Start button at clock 0 and the Lap button at clock 1000 the coordinator is in HR wait
  with an empty queue, and the queue is still empty after each of the three exits (the
  confirmation at 2000, the Stop button at 2000, the timeout seen at 6001); after the
  confirmation the coordinator is Running, the session is still on lap 1 and slot 0 of the
  lap array is unpopulated.
\<close>

theorem hr_wait_exit_emits_nothing:
  "s_currentState hr_wait_entered = CTRL_STATE_HR_MEASUREMENT \<and>
   g_eventQueue hr_wait_entered = [] \<and>
   g_eventQueue (handleBleCtrlEvent BLE_CTRL_EVT_HR_DONE 2000 hr_wait_entered) = [] \<and>
   g_eventQueue (handleButtonEvent BTN_STOP 2000 hr_wait_entered) = [] \<and>
   g_eventQueue (ControlTask_Run_iteration None None 6001 6001 6001 hr_wait_entered) = [] \<and>
   s_currentState (handleBleCtrlEvent BLE_CTRL_EVT_HR_DONE 2000 hr_wait_entered)
     = CTRL_STATE_RUNNING \<and>
   current_lap (s_session (workout (handleBleCtrlEvent BLE_CTRL_EVT_HR_DONE 2000 hr_wait_entered)))
     = 1 \<and>
   \<not> populated (workout (handleBleCtrlEvent BLE_CTRL_EVT_HR_DONE 2000 hr_wait_entered)) 0"
  using hr_wait_entered_paused
  by (simp add: handleBleCtrlEvent_def handleButtonEvent_def ControlTask_Run_iteration_def
      exit_when_paused HR_CONFIRM_TIMEOUT_MS_def Start_when_paused)
     (simp add: hr_wait_entered_eq populated_def Workout_Pause_def Workout_Start_def
      Workout_Init_def zero_session_def MAX_LAPS_def zero_lap_def)

text \<open>
  C2. When the coordinator is in HR wait with the wait active and the lifecycle paused, and
  the clock read by the timeout check is more than \<open>HR_CONFIRM_TIMEOUT_MS\<close> past the start
  of the wait (in 32-bit arithmetic, as the source computes it), then after that pass of
  the loop, whatever the two queues deliver in it, the coordinator is Running with the wait
  inactive and the lifecycle has been resumed by \<^verbatim>\<open>Workout_Start\<close>. When the pass delivers
  neither the Stop button nor a confirmation, the resume is the one of the timeout check.
\<close>

theorem hr_wait_timeout_resumes:
  assumes "s_currentState c = CTRL_STATE_HR_MEASUREMENT" and "s_hrWait_active c"
    and "Workout_GetState (workout c) = STATE_PAUSED"
    and "HR_CONFIRM_TIMEOUT_MS < tNow - s_hrWait_startMs c"
  shows "s_currentState (ControlTask_Run_iteration btn ble tBtn tBle tNow c) = CTRL_STATE_RUNNING \<and>
         \<not> s_hrWait_active (ControlTask_Run_iteration btn ble tBtn tBle tNow c) \<and>
         Workout_GetState (workout (ControlTask_Run_iteration btn ble tBtn tBle tNow c))
           = STATE_RUNNING \<and>
         (\<exists>t \<in> {tBtn, tBle, tNow}.
            workout (ControlTask_Run_iteration btn ble tBtn tBle tNow c)
              = snd (Workout_Start t (workout c))) \<and>
         (btn \<noteq> Some BTN_STOP \<and> ble \<noteq> Some BLE_CTRL_EVT_HR_DONE \<longrightarrow>
            workout (ControlTask_Run_iteration btn ble tBtn tBle tNow c)
              = snd (Workout_Start tNow (workout c)))"
proof (cases "btn = Some BTN_STOP")
  case True
  then show ?thesis
    using assms
    by (simp add: ControlTask_Run_iteration_def handleButtonEvent_def handleBleCtrlEvent_def
        exit_when_paused Start_when_paused Workout_GetState_def Let_def split: option.splits)
next
  case False
  then have c1: "(case btn of Some b \<Rightarrow> handleButtonEvent b tBtn c | None \<Rightarrow> c) = c"
    using assms(1) by (simp add: handleButtonEvent_def split: option.splits)
  show ?thesis
  proof (cases "ble = Some BLE_CTRL_EVT_HR_DONE")
    case True
    then show ?thesis
      using assms c1
      by (simp add: ControlTask_Run_iteration_def handleBleCtrlEvent_def
          exit_when_paused Start_when_paused Workout_GetState_def Let_def)
  next
    case False
    then have c2: "(case ble of Some e \<Rightarrow> handleBleCtrlEvent e tBle c | None \<Rightarrow> c) = c"
      by (simp add: handleBleCtrlEvent_def split: option.splits)
    show ?thesis
      using assms c1 c2
      by (simp add: ControlTask_Run_iteration_def exit_when_paused Start_when_paused
          Workout_GetState_def Let_def)
  qed
qed

theorem hr_wait_timeout_resumes_witness:
  "s_currentState hr_wait_entered = CTRL_STATE_HR_MEASUREMENT \<and> s_hrWait_active hr_wait_entered \<and>
   Workout_GetState (workout hr_wait_entered) = STATE_PAUSED \<and>
   HR_CONFIRM_TIMEOUT_MS < 6001 - s_hrWait_startMs hr_wait_entered \<and>
   s_currentState (ControlTask_Run_iteration None None 6001 6001 6001 hr_wait_entered)
     = CTRL_STATE_RUNNING \<and>
   Workout_GetState (workout (ControlTask_Run_iteration None None 6001 6001 6001 hr_wait_entered))
     = STATE_RUNNING \<and>
   workout (ControlTask_Run_iteration None None 6001 6001 6001 hr_wait_entered)
     = snd (Workout_Start 6001 (workout hr_wait_entered))"
  using hr_wait_timeout_resumes [of hr_wait_entered 6001 None None 6001 6001]
  by (auto simp add: hr_wait_entered_fields hr_wait_entered_paused HR_CONFIRM_TIMEOUT_MS_def)

text \<open>
  C3. From Running with the lifecycle running, the Lap button at clock \<open>t0\<close> enters HR
  wait and pauses the lifecycle; the exit at clock \<open>t1\<close>, on any of the three paths (they
  all call \<^verbatim>\<open>exitHrWaitState\<close>), attempts the lap and resumes in one step. Afterwards
  the paused-time accumulator has grown by exactly \<open>t1 - t0\<close>, once, and the elapsed time
  at any later clock \<open>t\<close> is the elapsed time at entry plus \<open>t - t1\<close>: the wait is
  left out of the elapsed time exactly once.
\<close>

theorem hr_wait_pause_counted_once:
  assumes "s_currentState c = CTRL_STATE_RUNNING"
    and "Workout_GetState (workout c) = STATE_RUNNING"
  shows "s_currentState (handleButtonEvent BTN_LAP t0 c) = CTRL_STATE_HR_MEASUREMENT \<and>
         Workout_GetState (workout (handleButtonEvent BTN_LAP t0 c)) = STATE_PAUSED \<and>
         s_totalPausedMs (workout (exitHrWaitState confirmed t1 (handleButtonEvent BTN_LAP t0 c)))
           = s_totalPausedMs (workout c) + (t1 - t0) \<and>
         (\<forall>t. Workout_GetElapsedMs t t
                 (workout (exitHrWaitState confirmed t1 (handleButtonEvent BTN_LAP t0 c)))
               = Workout_GetElapsedMs t0 t0 (workout c) + (t - t1))"
proof -
  let ?c1 = "handleButtonEvent BTN_LAP t0 c"
  have c1: "?c1 = c\<lparr>workout := snd (Workout_Pause t0 (workout c)),
                     s_hrWait_startMs := t0, s_hrWait_active := True,
                     s_currentState := CTRL_STATE_HR_MEASUREMENT\<rparr>"
    using assms(1) by (simp add: handleButtonEvent_def enterHrWaitState_def)
  have paused: "Workout_GetState (workout ?c1) = STATE_PAUSED"
    using assms(2) by (simp add: c1 Workout_Pause_def Workout_GetState_def)
  show ?thesis
    using assms(2) paused
    by (simp add: exit_when_paused Start_when_paused)
       (simp add: c1 Workout_Pause_def Workout_GetState_def Workout_GetElapsedMs_def)
qed

theorem hr_wait_pause_counted_once_witness:
  "s_currentState running_coordinator = CTRL_STATE_RUNNING \<and>
   Workout_GetState (workout running_coordinator) = STATE_RUNNING \<and>
   s_totalPausedMs
     (workout (exitHrWaitState True 3000 (handleButtonEvent BTN_LAP 1000 running_coordinator)))
     = 2000 \<and>
   Workout_GetElapsedMs 3500 3500
     (workout (exitHrWaitState True 3000 (handleButtonEvent BTN_LAP 1000 running_coordinator)))
     = 1500"
  using hr_wait_pause_counted_once [of running_coordinator 1000 True 3000]
  by (simp add: running_coordinator_eq Workout_GetState_def Workout_Start_def Workout_Init_def
      zero_session_def Workout_GetElapsedMs_def)


end
